theory Spec2Isabelle
  imports Main "HOL-Library.Sublist"
begin

section \<open>JavaScript strings and arrays\<close>

text \<open>
  A JavaScript string is a sequence of code units. The model uses HOL's \<open>string\<close>, whose
  characters are the code units U+0000 to U+00FF; on those the functions below compute what
  the built-ins of the source compute. \<open>length\<close> is \<open>.length\<close> and \<open>@\<close> is \<open>+\<close>.
\<close>

definition toLowerCaseChar :: "char \<Rightarrow> char" where
  "toLowerCaseChar c =
     (let n = (of_char c :: nat) in
      if (65 \<le> n \<and> n \<le> 90) \<or> (192 \<le> n \<and> n \<le> 222 \<and> n \<noteq> 215)
      then char_of (n + 32) else c)"

definition toLowerCase :: "string \<Rightarrow> string" where
  "toLowerCase s = map toLowerCaseChar s"

text \<open>\<open>s.includes(t)\<close>: \<open>t\<close> occurs in \<open>s\<close> as a contiguous run.\<close>

fun str_includes :: "string \<Rightarrow> string \<Rightarrow> bool" where
  "str_includes [] t = (t = [])"
| "str_includes (c # cs) t = (prefix t (c # cs) \<or> str_includes cs t)"

text \<open>The character class \<open>[a-z0-9]\<close> and \<open>s.replace(/[^a-z0-9]/g, '')\<close>.\<close>

definition isLowerAlnum :: "char \<Rightarrow> bool" where
  "isLowerAlnum c =
     (let n = (of_char c :: nat) in (97 \<le> n \<and> n \<le> 122) \<or> (48 \<le> n \<and> n \<le> 57))"

definition stripNonAlnum :: "string \<Rightarrow> string" where
  "stripNonAlnum s = filter isLowerAlnum s"

text \<open>\<open>xs.join(sep)\<close> on an array of strings.\<close>

fun js_join :: "string \<Rightarrow> string list \<Rightarrow> string" where
  "js_join sep [] = []"
| "js_join sep [x] = x"
| "js_join sep (x # y # ys) = x @ sep @ js_join sep (y # ys)"

text \<open>
  \<open>xs.slice(start, end)\<close> and \<open>xs.slice(start)\<close> for integer arguments: a negative index
  counts from the end, and both indices are clamped to the array.
\<close>

definition js_slice :: "int \<Rightarrow> int \<Rightarrow> 'a list \<Rightarrow> 'a list" where
  "js_slice start end xs =
     (let len = int (length xs);
          k = (if start < 0 then max (len + start) 0 else min start len);
          final = (if end < 0 then max (len + end) 0 else min end len)
      in take (nat (final - k)) (drop (nat k) xs))"

definition js_slice_from :: "int \<Rightarrow> 'a list \<Rightarrow> 'a list" where
  "js_slice_from start xs =
     (let len = int (length xs);
          k = (if start < 0 then max (len + start) 0 else min start len)
      in drop (nat k) xs)"

text \<open>A template literal prints an absent optional string as \<open>undefined\<close>.\<close>

fun template :: "string option \<Rightarrow> string" where
  "template None = ''undefined''"
| "template (Some s) = s"

text \<open>Every value the code throws is an \<open>Error\<close> with a message; a \<open>TypeError\<close> is one.\<close>

datatype error = Error string | TypeError string

fun message :: "error \<Rightarrow> string" where
  "message (Error m) = m"
| "message (TypeError m) = m"


section \<open>Structured content\<close>

text \<open>
  The interfaces of \<open>src/types/content.ts\<close>, with the fields that the retrieval service
  reads. An optional field is an \<open>option\<close>; a \<open>Record<string, T>\<close> is the list of its
  entries in the order of \<open>Object.entries\<close>. The type \<open>'n\<close> stands for JavaScript numbers,
  which the service only prints, through the parameter \<open>numberToString\<close>.
  The object \<open>contentData\<close> of \<open>@/lib/data\<close> is a parameter of every function that
  reads it.
\<close>

record AppItem =
  title :: string
  shortDescription :: string
  tech :: "string list"
  myContribution :: "string option"

record EducationItem =
  institution :: string
  program :: string
  degreeLevel :: string
  period :: string
  courses :: "string list option"

record 'n ExperienceItem =
  company :: string
  role :: string
  period :: string
  tags :: "string list option"
  responsibilities :: "string list option"
  impact :: "(string \<times> 'n) list option"
  stack :: "string list option"

record Contact =
  email :: string
  github :: string
  linkedin :: string
  phone :: "string option"

record AboutData =
  bio :: string
  skills :: "(string \<times> string list) list"
  contact :: Contact

record 'n ContentData =
  apps :: "AppItem list"
  education :: "EducationItem list"
  experience :: "'n ExperienceItem list"
  about :: AboutData


section \<open>The fallback context selector\<close>

text \<open>The first \<open>forEach\<close> of \<open>getFallbackContext\<close>, which collects \<open>companyMatches\<close>.\<close>

definition companyMatches :: "'n ContentData \<Rightarrow> string \<Rightarrow> string list" where
  "companyMatches contentData queryLower =
     foldl (\<lambda>matches exp.
        let companyLower = stripNonAlnum (toLowerCase (company exp));
            queryNormalized = stripNonAlnum queryLower
        in if str_includes queryNormalized companyLower \<or> str_includes companyLower queryNormalized
           then matches @ [company exp] else matches)
       [] (experience contentData)"

text \<open>The three template literals that render an entry.\<close>

definition experienceText :: "('n \<Rightarrow> string) \<Rightarrow> 'n ExperienceItem \<Rightarrow> string" where
  "experienceText numberToString exp =
     (let impactText = (case impact exp of
              Some entries \<Rightarrow>
                '' Impact: '' @ js_join '', '' (map (\<lambda>(k, v). k @ '': '' @ numberToString v) entries)
            | None \<Rightarrow> []);
          tagsText = (case tags exp of Some ts \<Rightarrow> '' Tags: '' @ js_join '', '' ts | None \<Rightarrow> []);
          responsibilitiesText =
            (case responsibilities exp of Some rs \<Rightarrow> js_join '' '' rs | None \<Rightarrow> []);
          stackText = (case stack exp of Some st \<Rightarrow> js_join '', '' st | None \<Rightarrow> [])
      in ExperienceItem.role exp @ '' at '' @ company exp @ '' ('' @ ExperienceItem.period exp @ '')'' @ tagsText
         @ ''. '' @ responsibilitiesText @ '' Tech Stack: '' @ stackText @ ''.'' @ impactText)"

definition projectText :: "AppItem \<Rightarrow> string" where
  "projectText app =
     ''Project: '' @ title app @ '' - '' @ shortDescription app @ ''. Tech: ''
       @ js_join '', '' (tech app) @ ''. '' @ template (myContribution app)"

text \<open>\<open>edu.courses.join\<close> throws a \<open>TypeError\<close> when the optional \<open>courses\<close> is absent.\<close>

definition undefinedJoin :: error where
  "undefinedJoin =
     TypeError (''Cannot read properties of undefined (reading '' @ [CHR 0x27] @ ''join''
                @ [CHR 0x27] @ '')'')"

definition educationText :: "EducationItem \<Rightarrow> error + string" where
  "educationText edu =
     (case courses edu of
        None \<Rightarrow> Inl undefinedJoin
      | Some cs \<Rightarrow>
          Inr (''Education: '' @ degreeLevel edu @ '' in '' @ program edu @ '' from ''
               @ institution edu @ '' ('' @ EducationItem.period edu @ ''). Courses: ''
               @ js_join '', '' cs @ ''.''))"

text \<open>A \<open>forEach\<close> that pushes one string per element and stops where the body throws.\<close>

fun pushEach :: "('a \<Rightarrow> error + string) \<Rightarrow> 'a list \<Rightarrow> string list \<Rightarrow> error + string list" where
  "pushEach f [] contexts = Inr contexts"
| "pushEach f (x # xs) contexts =
     (case f x of Inl e \<Rightarrow> Inl e | Inr s \<Rightarrow> pushEach f xs (contexts @ [s]))"

definition getFallbackContext ::
  "('n \<Rightarrow> string) \<Rightarrow> 'n ContentData \<Rightarrow> string \<Rightarrow> error + string list" where
  "getFallbackContext numberToString contentData query =
     (let contexts = [];
          queryLower = toLowerCase query;
          contexts = contexts @ [''About Harishraj: '' @ bio (about contentData)];
          contexts = contexts @ [''Contact: Email: '' @ email (contact (about contentData))
                                 @ '', Phone: '' @ template (phone (contact (about contentData)))];
          contexts = contexts @ [''LinkedIn: '' @ linkedin (contact (about contentData))
                                 @ '', GitHub: '' @ github (contact (about contentData))];
          skillsText = js_join ''. ''
             (map (\<lambda>(category, sk). category @ '': '' @ js_join '', '' sk)
                  (skills (about contentData)));
          contexts = contexts @ [''Skills: '' @ skillsText];
          matches = companyMatches contentData queryLower;
          contexts =
            (if str_includes queryLower ''experience'' \<or> str_includes queryLower ''work''
                \<or> str_includes queryLower ''job'' \<or> str_includes queryLower ''role''
                \<or> str_includes queryLower ''position'' \<or> length matches > 0
                \<or> str_includes queryLower ''summarize''
                \<or> str_includes queryLower ''tell me about''
             then foldl (\<lambda>ctx exp. ctx @ [experienceText numberToString exp])
                    contexts (experience contentData)
             else contexts);
          contexts =
            (if str_includes queryLower ''project'' \<or> str_includes queryLower ''built''
                \<or> str_includes queryLower ''app''
             then foldl (\<lambda>ctx app. ctx @ [projectText app]) contexts (apps contentData)
             else contexts)
      in case (if str_includes queryLower ''education'' \<or> str_includes queryLower ''degree''
                  \<or> str_includes queryLower ''university''
               then pushEach educationText (education contentData) contexts
               else Inr contexts) of
           Inl e \<Rightarrow> Inl e
         | Inr contexts \<Rightarrow> Inr (js_slice 0 10 contexts))"


section \<open>The retrieval service\<close>

text \<open>
  \<open>process.env\<close>, the three clients and the service object. A backend is a function from
  the request to what the call returns or throws; every call made is appended to a log, so
  that a run returns its result, the service object after it, and the calls in order.
  The completion request also carries the constants \<open>temperature: 0.7\<close> and
  \<open>max_tokens: 500\<close>, which the model leaves out of the logged call.
\<close>

record Env =
  OPENAI_API_KEY :: "string option"
  PINECONE_API_KEY :: "string option"
  PINECONE_INDEX_NAME :: "string option"

text \<open>A value used as a condition: \<open>undefined\<close> and the empty string are falsy.\<close>

fun truthy :: "string option \<Rightarrow> bool" where
  "truthy None = False"
| "truthy (Some s) = (s \<noteq> [])"

text \<open>A match of the index; its metadata maps keys to strings.\<close>

record Match =
  metadata :: "(string \<times> string) list option"

record 'n Backends =
  newPinecone :: "string \<Rightarrow> error + unit"
  embeddingsCreate :: "string \<Rightarrow> string \<Rightarrow> error + 'n list list"
  indexQuery :: "string \<Rightarrow> 'n list \<Rightarrow> nat \<Rightarrow> error + Match list option"
  chatCompletionsCreate :: "string \<Rightarrow> string \<Rightarrow> string \<Rightarrow> error + string option"

datatype 'n BackendCall =
    EmbeddingsCreate string string
  | IndexQuery string "'n list" nat
  | ChatCompletionsCreate string string string

datatype Role = User | Assistant

record Message =
  role :: Role
  content :: string

record RAGService =
  pinecone :: "string option"
  indexName :: string
  isInitialized :: bool

definition newRAGService :: "Env \<Rightarrow> RAGService" where
  "newRAGService env =
     \<lparr> pinecone = None,
       indexName = (case PINECONE_INDEX_NAME env of
                      Some n \<Rightarrow> if n \<noteq> [] then n else ''portfolio-chatbot''
                    | None \<Rightarrow> ''portfolio-chatbot''),
       isInitialized = False \<rparr>"

definition initialize :: "RAGService \<Rightarrow> Env \<Rightarrow> 'n Backends \<Rightarrow> RAGService" where
  "initialize svc env bk =
     (if isInitialized svc then svc
      else case PINECONE_API_KEY env of
             Some k \<Rightarrow>
               (if k \<noteq> [] then
                  (case newPinecone bk k of
                     Inr _ \<Rightarrow> svc\<lparr>pinecone := Some k, isInitialized := True\<rparr>
                   | Inl e \<Rightarrow> svc\<lparr>isInitialized := True\<rparr>)
                else svc\<lparr>isInitialized := True\<rparr>)
           | None \<Rightarrow> svc\<lparr>isInitialized := True\<rparr>)"

definition createEmbedding ::
  "'n Backends \<Rightarrow> string \<Rightarrow> (error + 'n list) \<times> 'n BackendCall list" where
  "createEmbedding bk text =
     (case embeddingsCreate bk ''text-embedding-3-small'' text of
        Inl e \<Rightarrow> Inl (Error ''Failed to create embedding'')
      | Inr [] \<Rightarrow> Inl (Error ''Failed to create embedding'')
      | Inr (embedding # _) \<Rightarrow> Inr embedding,
      [EmbeddingsCreate ''text-embedding-3-small'' text])"

text \<open>\<open>matches?.filter(m => m.metadata && m.metadata.text).map(m => m.metadata.text) || []\<close>\<close>

definition hasText :: "Match \<Rightarrow> bool" where
  "hasText m = (case metadata m of None \<Rightarrow> False | Some md \<Rightarrow> truthy (map_of md ''text''))"

definition matchTexts :: "Match list option \<Rightarrow> string list" where
  "matchTexts matches =
     (case matches of
        None \<Rightarrow> []
      | Some ms \<Rightarrow> map (\<lambda>m. the (map_of (the (metadata m)) ''text'')) (filter hasText ms))"

definition searchVectorStore ::
  "RAGService \<Rightarrow> 'n Backends \<Rightarrow> ('n \<Rightarrow> string) \<Rightarrow> 'n ContentData \<Rightarrow> string \<Rightarrow> nat
     \<Rightarrow> (error + string list) \<times> 'n BackendCall list" where
  "searchVectorStore svc bk numberToString contentData query topK =
     (if pinecone svc = None then (getFallbackContext numberToString contentData query, [])
      else case createEmbedding bk query of
             (Inl e, calls) \<Rightarrow> (getFallbackContext numberToString contentData query, calls)
           | (Inr queryEmbedding, calls) \<Rightarrow>
               (case indexQuery bk (indexName svc) queryEmbedding topK of
                  Inl e \<Rightarrow>
                    (getFallbackContext numberToString contentData query,
                     calls @ [IndexQuery (indexName svc) queryEmbedding topK])
                | Inr matches \<Rightarrow>
                    (Inr (matchTexts matches),
                     calls @ [IndexQuery (indexName svc) queryEmbedding topK])))"

definition historyText :: "Message list \<Rightarrow> string" where
  "historyText conversationHistory =
     (if length conversationHistory > 0
      then js_join ''\<newline>''
             (map (\<lambda>msg. (if Message.role msg = User then ''User'' else ''Assistant'')
                          @ '': '' @ content msg)
                  (js_slice_from (- 6) conversationHistory))
      else [])"

definition buildPrompt :: "string \<Rightarrow> string list \<Rightarrow> Message list \<Rightarrow> string" where
  "buildPrompt query contexts conversationHistory =
     (let contextText = js_join ''\<newline>\<newline>'' contexts;
          history = historyText conversationHistory
      in ''You are an AI assistant that represents Harishraj Udaya Bhaskar, an AI Software Engineer. ''
         @ ''Your role is to help recruiters and visitors learn about his background, skills, and experience.''
         @ ''\<newline>\<newline>IMPORTANT GUIDELINES:''
         @ ''\<newline>- Be conversational, friendly, and professional''
         @ ''\<newline>- Answer only based on the provided context''
         @ ''\<newline>- If you don'' @ [CHR 0x27] @ ''t have information, politely say so and suggest they contact him directly''
         @ ''\<newline>- Keep responses concise (2-3 paragraphs max) unless asked for details''
         @ ''\<newline>- Use first-person perspective when discussing Harishraj (e.g., ''
         @ [CHR 0x22] @ ''I have experience in...'' @ [CHR 0x22] @ '')''
         @ ''\<newline>- Highlight his AI/M'' @ ''L expertise, recent projects, and impact metrics''
         @ ''\<newline>- Be enthusiastic about his work but remain humble''
         @ ''\<newline>\<newline>CONTEXT ABOUT HARISHRAJ:\<newline>'' @ contextText
         @ ''\<newline>\<newline>''
         @ (if history \<noteq> [] then ''CONVERSATION HISTORY:\<newline>'' @ history @ ''\<newline>'' else [])
         @ ''\<newline>USER QUESTION: '' @ query
         @ ''\<newline>\<newline>Please provide a helpful, accurate response based on the context above:'')"

definition notConfiguredMessage :: string where
  "notConfiguredMessage =
     ''I'' @ [CHR 0x27] @ ''m currently not configured properly. Please set up the OpenAI API key ''
     @ ''to enable the chatbot. In the meantime, feel free to explore the portfolio or reach out ''
     @ ''directly at uharishraj@gmail.com!''"

definition troubleConnectingMessage :: string where
  "troubleConnectingMessage =
     ''I'' @ [CHR 0x27] @ ''m having trouble connecting to my AI backend. Please make sure the API ''
     @ ''keys are configured correctly. You can still reach out directly at uharishraj@gmail.com!''"

definition systemMessage :: string where
  "systemMessage = ''You are a helpful AI assistant representing Harishraj Udaya Bhaskar.''"

text \<open>The \<open>catch\<close> block of \<open>query\<close>.\<close>

definition classifyFailure :: "error \<Rightarrow> error + string" where
  "classifyFailure e =
     (if str_includes (message e) ''API key'' then Inr troubleConnectingMessage else Inl e)"

text \<open>The completion request of \<open>query\<close> and the text taken from its first choice.\<close>

definition generate :: "'n Backends \<Rightarrow> string \<Rightarrow> (error + string) \<times> 'n BackendCall list" where
  "generate bk prompt =
     (case chatCompletionsCreate bk ''gpt-4o-mini'' systemMessage prompt of
        Inl e \<Rightarrow> Inl e
      | Inr c \<Rightarrow> Inr (if truthy c then the c else ''Sorry, I could not generate a response.''),
      [ChatCompletionsCreate ''gpt-4o-mini'' systemMessage prompt])"

definition query ::
  "RAGService \<Rightarrow> Env \<Rightarrow> 'n Backends \<Rightarrow> ('n \<Rightarrow> string) \<Rightarrow> 'n ContentData \<Rightarrow> string
     \<Rightarrow> Message list \<Rightarrow> (error + string) \<times> RAGService \<times> 'n BackendCall list" where
  "query svc0 env bk numberToString contentData userQuery conversationHistory =
     (let svc = initialize svc0 env bk in
      if \<not> truthy (OPENAI_API_KEY env) then (Inr notConfiguredMessage, svc, [])
      else case searchVectorStore svc bk numberToString contentData userQuery 5 of
             (Inl e, calls) \<Rightarrow> (classifyFailure e, svc, calls)
           | (Inr contexts, calls) \<Rightarrow>
               (let prompt = buildPrompt userQuery contexts conversationHistory;
                    (response, calls') = generate bk prompt
                in (case response of Inl e \<Rightarrow> classifyFailure e | Inr r \<Rightarrow> Inr r,
                    svc, calls @ calls')))"


section \<open>The document processor\<close>

text \<open>
  \<open>chunkSize\<close> and \<open>chunkOverlap\<close> are the constructor's two numbers, taken as integers.
\<close>

record DocumentProcessor =
  chunkSize :: int
  chunkOverlap :: int

definition newDocumentProcessor :: DocumentProcessor where
  "newDocumentProcessor = \<lparr> chunkSize = 1000, chunkOverlap = 200 \<rparr>"

record ChunkMetadata =
  source :: string
  type :: string
  chunkIndex :: "nat option"
  totalChunks :: "nat option"

record ProcessedDocument =
  "text" :: string
  metadata :: ChunkMetadata

text \<open>
  The class \<open>\s\<close> of regular expressions, which is also what \<open>trim\<close> strips: tab, line
  feed, vertical tab, form feed, carriage return, space and no-break space.
\<close>

definition isWhiteSpace :: "char \<Rightarrow> bool" where
  "isWhiteSpace c =
     (c = CHR 0x09 \<or> c = CHR 0x0A \<or> c = CHR 0x0B \<or> c = CHR 0x0C \<or> c = CHR 0x0D
      \<or> c = CHR 0x20 \<or> c = CHR 0xA0)"

definition js_trim :: "string \<Rightarrow> string" where
  "js_trim s = rev (dropWhile isWhiteSpace (rev (dropWhile isWhiteSpace s)))"

text \<open>\<open>s.split(sep)\<close> for a separator of one character.\<close>

fun js_split :: "char \<Rightarrow> string \<Rightarrow> string list" where
  "js_split sep [] = [[]]"
| "js_split sep (c # cs) =
     (if c = sep then [] # js_split sep cs
      else (case js_split sep cs of w # ws \<Rightarrow> (c # w) # ws | [] \<Rightarrow> [[c]]))"

text \<open>\<open>s.replace(/\n{3,}/g, '\n\n')\<close>: every maximal run of three or more line feeds becomes two.\<close>

function collapseNewlines :: "string \<Rightarrow> string" where
  "collapseNewlines [] = []"
| "collapseNewlines (c # cs) =
     (if c = CHR 0x0A
      then (let run = takeWhile (\<lambda>x. x = CHR 0x0A) (c # cs);
                rest = dropWhile (\<lambda>x. x = CHR 0x0A) (c # cs)
            in (if length run \<ge> 3 then [CHR 0x0A, CHR 0x0A] else run) @ collapseNewlines rest)
      else c # collapseNewlines cs)"
  by pat_completeness auto
termination
  by (relation "measure length") (auto simp: less_Suc_eq_le length_dropWhile_le)

text \<open>\<open>s.replace(/\s+/g, ' ')\<close>: every maximal run of white space becomes one space.\<close>

function collapseWhiteSpace :: "string \<Rightarrow> string" where
  "collapseWhiteSpace [] = []"
| "collapseWhiteSpace (c # cs) =
     (if isWhiteSpace c then CHR '' '' # collapseWhiteSpace (dropWhile isWhiteSpace cs)
      else c # collapseWhiteSpace cs)"
  by pat_completeness auto
termination
  by (relation "measure length") (auto simp: less_Suc_eq_le length_dropWhile_le)

text \<open>
  \<open>s.match(/[^.!?]+[.!?]+/g)\<close>: the matches from left to right. A match is a maximal
  non-empty run of characters other than \<open>.\<close>, \<open>!\<close> and \<open>?\<close> followed by a maximal
  non-empty run of these; terminators with nothing before them are skipped, and a last run
  that no terminator follows matches nothing. The empty list stands for \<open>null\<close>.
\<close>

definition isTerminator :: "char \<Rightarrow> bool" where
  "isTerminator c = (c = CHR ''.'' \<or> c = CHR ''!'' \<or> c = CHR ''?'')"

function matchSentences :: "string \<Rightarrow> string list" where
  "matchSentences s =
     (let s1 = dropWhile isTerminator s;
          body = takeWhile (\<lambda>c. \<not> isTerminator c) s1;
          s2 = dropWhile (\<lambda>c. \<not> isTerminator c) s1
      in if body = [] \<or> s2 = [] then []
         else (body @ takeWhile isTerminator s2) # matchSentences (dropWhile isTerminator s2))"
  by pat_completeness auto
termination
proof (relation "measure length", simp, goal_cases)
  case (1 s s1 body s2)
  then have "s2 \<noteq> []" "body \<noteq> []" by auto
  have "length (dropWhile isTerminator s2) \<le> length s2"
    by (rule length_dropWhile_le)
  also have "length s2 < length s1"
  proof -
    have "length body + length s2 = length s1"
      using 1 by (metis length_append takeWhile_dropWhile_id)
    then show ?thesis using \<open>body \<noteq> []\<close> by (cases body) auto
  qed
  also have "length s1 \<le> length s"
    using 1 by (simp add: length_dropWhile_le)
  finally show ?case by simp
qed

declare matchSentences.simps [simp del]

text \<open>
  \<open>words.slice(-Math.floor(this.chunkOverlap / 5))\<close> for \<open>words = currentChunk.split(' ')\<close>.
\<close>

definition overlapWords :: "DocumentProcessor \<Rightarrow> string \<Rightarrow> string list" where
  "overlapWords dp currentChunk =
     (let wordList = js_split CHR '' '' currentChunk
      in js_slice_from (- (chunkOverlap dp div 5)) wordList)"

text \<open>The \<open>for\<close> loop of \<open>chunkText\<close>, on the sentences left, the buffer and the chunks.\<close>

fun chunkLoop ::
  "DocumentProcessor \<Rightarrow> string list \<Rightarrow> string \<Rightarrow> string list \<Rightarrow> string list \<times> string" where
  "chunkLoop dp [] currentChunk chunks = (chunks, currentChunk)"
| "chunkLoop dp (sentence # rest) currentChunk chunks =
     (if int (length (currentChunk @ sentence)) > chunkSize dp \<and> length currentChunk > 0
      then chunkLoop dp rest
             (js_join '' '' (overlapWords dp currentChunk) @ '' '' @ sentence)
             (chunks @ [js_trim currentChunk])
      else chunkLoop dp rest (currentChunk @ sentence) chunks)"

definition cleanText :: "string \<Rightarrow> string" where
  "cleanText s = js_trim (collapseWhiteSpace (collapseNewlines s))"

definition sentencesOf :: "string \<Rightarrow> string list" where
  "sentencesOf cleanedText =
     (case matchSentences cleanedText of [] \<Rightarrow> [cleanedText] | m # ms \<Rightarrow> m # ms)"

definition chunkText :: "DocumentProcessor \<Rightarrow> string \<Rightarrow> string list" where
  "chunkText dp s =
     (let cleanedText = cleanText s;
          sentences = sentencesOf cleanedText;
          (chunks, currentChunk) = chunkLoop dp sentences [] []
      in if length (js_trim currentChunk) > 0 then chunks @ [js_trim currentChunk] else chunks)"

text \<open>\<open>line.match(/^#{1,6}\s/)\<close>: one to six \<open>#\<close> and then a white space character.\<close>

definition isHeader :: "string \<Rightarrow> bool" where
  "isHeader line =
     (let n = length (takeWhile (\<lambda>c. c = CHR ''#'') line)
      in 1 \<le> n \<and> n \<le> 6 \<and> (case drop n line of [] \<Rightarrow> False | c # _ \<Rightarrow> isWhiteSpace c))"

fun headerLoop :: "string list \<Rightarrow> string \<Rightarrow> string list \<Rightarrow> string list \<times> string" where
  "headerLoop [] currentSection sections = (sections, currentSection)"
| "headerLoop (line # rest) currentSection sections =
     (if isHeader line
      then headerLoop rest (line @ [CHR 0x0A])
             (if length (js_trim currentSection) > 0 then sections @ [js_trim currentSection]
              else sections)
      else headerLoop rest (currentSection @ line @ [CHR 0x0A]) sections)"

definition splitByMarkdownHeaders :: "string \<Rightarrow> string list" where
  "splitByMarkdownHeaders fileContent =
     (let (sections, currentSection) = headerLoop (js_split (CHR 0x0A) fileContent) [] []
      in if length (js_trim currentSection) > 0 then sections @ [js_trim currentSection]
         else sections)"

text \<open>
  The file system: \<open>fs.readFileSync(path, 'utf-8')\<close>, which returns the content or throws,
  and \<open>path.basename\<close>. Both processing functions rethrow what the read throws.
\<close>

record FileSystem =
  readFileSync :: "string \<Rightarrow> error + string"
  basename :: "string \<Rightarrow> string"

definition processTextFile ::
  "DocumentProcessor \<Rightarrow> FileSystem \<Rightarrow> string \<Rightarrow> error + ProcessedDocument list" where
  "processTextFile dp fs filePath =
     (case readFileSync fs filePath of
        Inl e \<Rightarrow> Inl e
      | Inr fileContent \<Rightarrow>
          (let chunks = chunkText dp fileContent;
               fileName = basename fs filePath
           in Inr (map (\<lambda>(index, chunk).
                          \<lparr> text = chunk,
                            metadata = \<lparr> source = fileName, type = ''text'',
                                         chunkIndex = Some index,
                                         totalChunks = Some (length chunks) \<rparr> \<rparr>)
                       (enumerate 0 chunks))))"

definition processMarkdown ::
  "DocumentProcessor \<Rightarrow> FileSystem \<Rightarrow> string \<Rightarrow> error + ProcessedDocument list" where
  "processMarkdown dp fs filePath =
     (case readFileSync fs filePath of
        Inl e \<Rightarrow> Inl e
      | Inr fileContent \<Rightarrow>
          (let sections = splitByMarkdownHeaders fileContent;
               fileName = basename fs filePath
           in Inr (concat (map (\<lambda>(index, section).
                     let chunks = (if int (length section) > chunkSize dp
                                   then chunkText dp section else [section])
                     in map (\<lambda>(chunkIdx, chunk).
                               \<lparr> text = chunk,
                                 metadata = \<lparr> source = fileName, type = ''markdown'',
                                              chunkIndex = Some (index * length chunks + chunkIdx),
                                              totalChunks = Some (length sections * length chunks) \<rparr> \<rparr>)
                            (enumerate 0 chunks))
                   (enumerate 0 sections)))))"


section \<open>Notions used to state the properties of the fallback selector\<close>

text \<open>
  The normalisation of the company test, the conditions of the three optional blocks as
  the specification words them, and the list that the selector assembles before it cuts it.
\<close>

definition normalizeText :: "string \<Rightarrow> string" where
  "normalizeText s = stripNonAlnum (toLowerCase s)"

definition companyMatch :: "string \<Rightarrow> 'n ExperienceItem \<Rightarrow> bool" where
  "companyMatch q e \<longleftrightarrow>
     str_includes (normalizeText q) (normalizeText (company e))
     \<or> str_includes (normalizeText (company e)) (normalizeText q)"

definition experienceKeywords :: "string list" where
  "experienceKeywords =
     [''experience'', ''work'', ''job'', ''role'', ''position'', ''summarize'', ''tell me about'']"

definition experienceSelected :: "'n ContentData \<Rightarrow> string \<Rightarrow> bool" where
  "experienceSelected cd q \<longleftrightarrow>
     (\<exists>kw \<in> set experienceKeywords. str_includes (toLowerCase q) kw)
     \<or> (\<exists>e \<in> set (experience cd). companyMatch q e)"

definition projectsSelected :: "string \<Rightarrow> bool" where
  "projectsSelected q \<longleftrightarrow>
     (\<exists>kw \<in> set [''project'', ''built'', ''app'']. str_includes (toLowerCase q) kw)"

definition educationSelected :: "string \<Rightarrow> bool" where
  "educationSelected q \<longleftrightarrow>
     (\<exists>kw \<in> set [''education'', ''degree'', ''university'']. str_includes (toLowerCase q) kw)"

text \<open>The four strings pushed unconditionally: about, contact, links and skills.\<close>

definition baseContexts :: "'n ContentData \<Rightarrow> string list" where
  "baseContexts cd =
     [''About Harishraj: '' @ bio (about cd),
      ''Contact: Email: '' @ email (contact (about cd)) @ '', Phone: ''
         @ template (phone (contact (about cd))),
      ''LinkedIn: '' @ linkedin (contact (about cd)) @ '', GitHub: '' @ github (contact (about cd)),
      ''Skills: '' @ js_join ''. ''
         (map (\<lambda>(category, sk). category @ '': '' @ js_join '', '' sk) (skills (about cd)))]"

text \<open>The string pushed for an education entry whose courses are present.\<close>

definition educationLine :: "EducationItem \<Rightarrow> string" where
  "educationLine edu = (case educationText edu of Inr s \<Rightarrow> s | Inl e \<Rightarrow> [])"

definition assembled :: "('n \<Rightarrow> string) \<Rightarrow> 'n ContentData \<Rightarrow> string \<Rightarrow> string list" where
  "assembled ns cd q =
     baseContexts cd
     @ (if experienceSelected cd q then map (experienceText ns) (experience cd) else [])
     @ (if projectsSelected q then map projectText (apps cd) else [])
     @ (if educationSelected q then map educationLine (education cd) else [])"

text \<open>The ASCII letters and digits.\<close>

definition isAlnum :: "char \<Rightarrow> bool" where
  "isAlnum c =
     (let n = (of_char c :: nat) in
      (48 \<le> n \<and> n \<le> 57) \<or> (65 \<le> n \<and> n \<le> 90) \<or> (97 \<le> n \<and> n \<le> 122))"

section \<open>Example data\<close>

text \<open>
  Numbers are natural numbers in the examples, printed in decimal as \<open>String(n)\<close> prints
  them.
\<close>

fun natToString :: "nat \<Rightarrow> string" where
  "natToString n =
     (if n < 10 then [char_of (48 + n)] else natToString (n div 10) @ [char_of (48 + n mod 10)])"

definition acme :: "nat ExperienceItem" where
  "acme = \<lparr> company = ''Acme Corp'', ExperienceItem.role = ''Engineer'', period = ''2021 - 2023'',
             tags = Some [''AI'', ''Backend''], responsibilities = Some [''Built APIs.'', ''Led team.''],
             impact = Some [(''latency'', 35)], stack = Some [''Python'', ''Go''] \<rparr>"

definition globex :: "nat ExperienceItem" where
  "globex = \<lparr> company = ''Globex'', ExperienceItem.role = ''Intern'', period = ''2020'',
             tags = None, responsibilities = None, impact = None, stack = None \<rparr>"

definition exampleContent :: "nat ContentData" where
  "exampleContent =
     \<lparr> apps = [\<lparr> title = ''DevContext'', shortDescription = ''Unified workspace'',
                  tech = [''React'', ''Fastify''], myContribution = None \<rparr>],
       education = [\<lparr> institution = ''State University'', program = ''CS'', degreeLevel = ''MS'',
                       EducationItem.period = ''2019 - 2021'', courses = Some [''Statistics'', ''NLP''] \<rparr>],
       experience = [acme, globex],
       about = \<lparr> bio = ''Software engineer.'',
                  skills = [(''Languages'', [''Python'', ''Go'']), (''Cloud'', [''AWS''])],
                  contact = \<lparr> email = ''a@b.c'', github = ''gh'', linkedin = ''li'', phone = None \<rparr> \<rparr> \<rparr>"

definition crowdedContent :: "nat ContentData" where
  "crowdedContent = exampleContent\<lparr>experience := replicate 8 globex\<rparr>"

definition sevenContent :: "nat ContentData" where
  "sevenContent = exampleContent\<lparr>experience := replicate 6 globex @ [acme]\<rparr>"

definition noCoursesContent :: "nat ContentData" where
  "noCoursesContent =
     exampleContent\<lparr>education :=
       [\<lparr> institution = ''State University'', program = ''CS'', degreeLevel = ''MS'',
           EducationItem.period = ''2019 - 2021'', courses = None \<rparr>]\<rparr>"

definition acmeQuery :: string where
  "acmeQuery = ''What did he do at Acme Corp?''"

definition acmeContexts :: "string list" where
  "acmeContexts =
     [''About Harishraj: Software engineer.'',
      ''Contact: Email: a@b.c, Phone: undefined'',
      ''LinkedIn: li, GitHub: gh'',
      ''Skills: Languages: Python, Go. Cloud: AWS'',
      ''Engineer at Acme Corp (2021 - 2023) Tags: AI, Backend. Built APIs. Led team. Tech Stack: Python, Go. Impact: latency: 35'',
      ''Intern at Globex (2020).  Tech Stack: .'']"

section \<open>Notions used to state the properties of the service\<close>

text \<open>
  The outcome of the vector search inside \<open>searchVectorStore\<close>: the matches when a client
  is configured and neither the embedding call nor the index query throws, \<open>None\<close>
  otherwise.
\<close>

definition vectorSearch ::
  "RAGService \<Rightarrow> 'n Backends \<Rightarrow> string \<Rightarrow> nat \<Rightarrow> Match list option option" where
  "vectorSearch svc bk q k =
     (if pinecone svc = None then None
      else case fst (createEmbedding bk q) of
             Inl e \<Rightarrow> None
           | Inr v \<Rightarrow> (case indexQuery bk (indexName svc) v k of Inl e \<Rightarrow> None | Inr ms \<Rightarrow> Some ms))"

definition exampleEnv :: Env where
  "exampleEnv = \<lparr> OPENAI_API_KEY = Some ''sk-test'', PINECONE_API_KEY = Some ''pc-test'',
                  PINECONE_INDEX_NAME = None \<rparr>"

definition noKeyEnv :: Env where
  "noKeyEnv = \<lparr> OPENAI_API_KEY = None, PINECONE_API_KEY = Some ''pc-test'',
                PINECONE_INDEX_NAME = None \<rparr>"

definition noPineconeEnv :: Env where
  "noPineconeEnv = \<lparr> OPENAI_API_KEY = Some ''sk-test'', PINECONE_API_KEY = None,
                PINECONE_INDEX_NAME = None \<rparr>"

definition emptyIndexBackends :: "nat Backends" where
  "emptyIndexBackends =
     \<lparr> newPinecone = (\<lambda>k. Inr ()),
       embeddingsCreate = (\<lambda>m t. Inr [[1, 2, 3]]),
       indexQuery = (\<lambda>i v k. Inr (Some [])),
       chatCompletionsCreate = (\<lambda>m s p. Inr (Some ''ok'')) \<rparr>"

definition missingIndexBackends :: "nat Backends" where
  "missingIndexBackends =
     \<lparr> newPinecone = (\<lambda>k. Inr ()),
       embeddingsCreate = (\<lambda>m t. Inr [[1, 2, 3]]),
       indexQuery = (\<lambda>i v k. Inl (Error ''404 index not found'')),
       chatCompletionsCreate = (\<lambda>m s p. Inr (Some ''ok'')) \<rparr>"


section \<open>Notions used to state the properties of the document processor\<close>

text \<open>The trailing \<open>k\<close> elements of a list of words.\<close>

definition lastWords :: "nat \<Rightarrow> string list \<Rightarrow> string list" where
  "lastWords k ws = drop (length ws - k) ws"

text \<open>The buffer with which the loop goes on after it has closed the buffer \<open>buf\<close>.\<close>

definition seedBuffer :: "DocumentProcessor \<Rightarrow> string \<Rightarrow> string \<Rightarrow> string" where
  "seedBuffer dp buf sentence = js_join '' '' (overlapWords dp buf) @ '' '' @ sentence"

text \<open>
  The loop of \<open>chunkText\<close> with a record of what it did: the same test and the same
  two updates of \<open>currentChunk\<close>, keeping for every buffer, the closed ones and the last
  one, its text before trimming and the sentence units it took.
\<close>

fun traceLoop ::
  "DocumentProcessor \<Rightarrow> string list \<Rightarrow> string \<Rightarrow> string list
     \<Rightarrow> (string \<times> string list) list \<Rightarrow> (string \<times> string list) list" where
  "traceLoop dp [] currentChunk units closed = closed @ [(currentChunk, units)]"
| "traceLoop dp (sentence # rest) currentChunk units closed =
     (if int (length (currentChunk @ sentence)) > chunkSize dp \<and> length currentChunk > 0
      then traceLoop dp rest
             (js_join '' '' (overlapWords dp currentChunk) @ '' '' @ sentence) [sentence]
             (closed @ [(currentChunk, units)])
      else traceLoop dp rest (currentChunk @ sentence) (units @ [sentence]) closed)"

definition chunkTrace :: "DocumentProcessor \<Rightarrow> string \<Rightarrow> (string \<times> string list) list" where
  "chunkTrace dp s = traceLoop dp (sentencesOf (cleanText s)) [] [] []"

text \<open>
  The shape of the recorded buffers, each given the buffer closed before it (\<open>None\<close> for
  the first). The first buffer is its units put together. A later buffer follows a buffer
  that was not empty and could not take the first unit \<open>hd us\<close> within \<open>chunkSize\<close>;
  it is the seed made from that buffer and that unit, then its other units. A buffer of
  more than one unit is within \<open>chunkSize\<close>.
\<close>

fun entryOk :: "DocumentProcessor \<Rightarrow> string option \<Rightarrow> string \<times> string list \<Rightarrow> bool" where
  "entryOk dp None (b, us) = (b = concat us \<and> (length us \<le> 1 \<or> int (length b) \<le> chunkSize dp))"
| "entryOk dp (Some p) (b, us) =
     (us \<noteq> [] \<and> p \<noteq> [] \<and> int (length (p @ hd us)) > chunkSize dp
      \<and> b = seedBuffer dp p (hd us) @ concat (tl us)
      \<and> (length us \<le> 1 \<or> int (length b) \<le> chunkSize dp))"

fun traceChain ::
  "DocumentProcessor \<Rightarrow> string option \<Rightarrow> (string \<times> string list) list \<Rightarrow> bool" where
  "traceChain dp prev [] = True"
| "traceChain dp prev (e # es) = (entryOk dp prev e \<and> traceChain dp (Some (fst e)) es)"

text \<open>
  A buffer or unit whose only white space is the single space and which does not end with
  white space; a unit is moreover not empty.
\<close>

definition cleanBuf :: "string \<Rightarrow> bool" where
  "cleanBuf b \<longleftrightarrow>
     (b = [] \<or> \<not> isWhiteSpace (last b)) \<and> (\<forall>c \<in> set b. isWhiteSpace c \<longrightarrow> c = CHR '' '')"

definition unitOk :: "string \<Rightarrow> bool" where
  "unitOk u \<longleftrightarrow> u \<noteq> [] \<and> cleanBuf u"

text \<open>The pairs of \<open>chunkIndex\<close> and \<open>totalChunks\<close> of the documents returned.\<close>

definition chunkNumbers :: "error + ProcessedDocument list \<Rightarrow> (nat option \<times> nat option) list" where
  "chunkNumbers r =
     (case r of
        Inl e \<Rightarrow> []
      | Inr docs \<Rightarrow> map (\<lambda>d. (chunkIndex (metadata d), totalChunks (metadata d))) docs)"

text \<open>Example processors, texts and a file system with one markdown file.\<close>

definition dp10 :: DocumentProcessor where
  "dp10 = \<lparr> chunkSize = 10, chunkOverlap = 10 \<rparr>"

definition dp0 :: DocumentProcessor where
  "dp0 = \<lparr> chunkSize = 10, chunkOverlap = 0 \<rparr>"

definition dp40 :: DocumentProcessor where
  "dp40 = \<lparr> chunkSize = 40, chunkOverlap = 10 \<rparr>"

definition overlapExample :: string where
  "overlapExample = ''Aaaa bbbb. Cc. Dddd eeee.''"

definition longUnitExample :: string where
  "longUnitExample = ''Aaaa bbbb. Cccccccccccccccccccccccccccccc. Dd.''"

definition mdExample :: string where
  "mdExample = ''# Intro'' @ [CHR 0x0A] @ ''First sentence here. Second sentence here. Third one.''
      @ [CHR 0x0A] @ ''# Contact'' @ [CHR 0x0A] @ ''Mail me.'' @ [CHR 0x0A]"

definition mdFs :: FileSystem where
  "mdFs = \<lparr> readFileSync = (\<lambda>p. if p = ''docs/about.md'' then Inr mdExample
                                 else Inl (Error ''ENOENT'')),
            basename = (\<lambda>p. ''about.md'') \<rparr>"


section \<open>Properties of the string functions\<close>

lemma str_includes_sublist: "str_includes s t \<longleftrightarrow> sublist t s"
  by (induction s) (auto simp: sublist_Cons_right)

section \<open>Properties of the fallback context selector\<close>

lemma foldl_push: "foldl (\<lambda>acc x. acc @ [f x]) acc xs = acc @ map f xs"
  by (induction xs arbitrary: acc) auto

lemma foldl_push_if:
  "foldl (\<lambda>acc x. if P x then acc @ [f x] else acc) acc xs = acc @ map f (filter P xs)"
  by (induction xs arbitrary: acc) auto

lemma companyMatches_filter:
  "companyMatches cd (toLowerCase q) = map company (filter (companyMatch q) (experience cd))"
  unfolding companyMatches_def Let_def companyMatch_def normalizeText_def
  by (simp add: foldl_push_if)

lemma companyMatches_nonempty:
  "length (companyMatches cd (toLowerCase q)) > 0 \<longleftrightarrow> (\<exists>e \<in> set (experience cd). companyMatch q e)"
  by (auto simp: companyMatches_filter filter_empty_conv)

lemma pushEach_educationText:
  "pushEach educationText eds acc =
     (if \<exists>e \<in> set eds. courses e = None
      then Inl undefinedJoin
      else Inr (acc @ map educationLine eds))"
  by (induction eds arbitrary: acc)
     (auto simp: educationText_def educationLine_def split: option.splits)

lemma js_slice_0_10: "js_slice 0 10 xs = take 10 xs"
  by (simp add: js_slice_def Let_def min_def)

lemma experience_gate:
  "(str_includes (toLowerCase q) ''experience'' \<or> str_includes (toLowerCase q) ''work''
      \<or> str_includes (toLowerCase q) ''job'' \<or> str_includes (toLowerCase q) ''role''
      \<or> str_includes (toLowerCase q) ''position''
      \<or> length (companyMatches cd (toLowerCase q)) > 0
      \<or> str_includes (toLowerCase q) ''summarize''
      \<or> str_includes (toLowerCase q) ''tell me about'')
    = experienceSelected cd q"
  unfolding experienceSelected_def experienceKeywords_def companyMatches_nonempty
  by (simp del: str_includes.simps) blast

lemma projects_gate:
  "(str_includes (toLowerCase q) ''project'' \<or> str_includes (toLowerCase q) ''built''
      \<or> str_includes (toLowerCase q) ''app'') = projectsSelected q"
  unfolding projectsSelected_def by (simp del: str_includes.simps)

lemma education_gate:
  "(str_includes (toLowerCase q) ''education'' \<or> str_includes (toLowerCase q) ''degree''
      \<or> str_includes (toLowerCase q) ''university'') = educationSelected q"
  unfolding educationSelected_def by (simp del: str_includes.simps)

lemma getFallbackContext_assembled:
  "getFallbackContext ns cd q =
     (if educationSelected q \<and> (\<exists>e \<in> set (education cd). courses e = None)
      then Inl undefinedJoin
      else Inr (take 10 (assembled ns cd q)))"
  unfolding getFallbackContext_def Let_def experience_gate projects_gate education_gate
  by (auto simp add: foldl_push pushEach_educationText js_slice_0_10 assembled_def baseContexts_def
        simp del: take_append str_includes.simps)

lemma sublist_map_mono: "sublist xs ys \<Longrightarrow> sublist (map f xs) (map f ys)"
  unfolding sublist_def by (metis map_append)

lemma sublist_filter_mono: "sublist xs ys \<Longrightarrow> sublist (filter P xs) (filter P ys)"
  unfolding sublist_def by (metis filter_append)

lemma sublist_normalize: "sublist xs ys \<Longrightarrow> sublist (normalizeText xs) (normalizeText ys)"
  unfolding normalizeText_def stripNonAlnum_def toLowerCase_def
  by (intro sublist_filter_mono sublist_map_mono)

lemma company_in_query:
  "e \<in> set (experience cd) \<Longrightarrow> str_includes q (company e) \<Longrightarrow> experienceSelected cd q"
  unfolding experienceSelected_def companyMatch_def
  by (auto simp: str_includes_sublist dest: sublist_normalize simp del: str_includes.simps)

lemma lower_alnum_is_alnum: "isLowerAlnum (toLowerCaseChar c) \<Longrightarrow> isAlnum c"
  unfolding isLowerAlnum_def toLowerCaseChar_def isAlnum_def Let_def
  by (auto split: if_splits)

lemma normalize_no_alnum: "\<forall>c \<in> set q. \<not> isAlnum c \<Longrightarrow> normalizeText q = []"
  unfolding normalizeText_def stripNonAlnum_def toLowerCase_def
  by (auto simp: filter_empty_conv dest: lower_alnum_is_alnum)

lemma no_keyword:
  assumes "\<forall>c \<in> set q. \<not> isAlnum c" "isLowerAlnum (hd kw)" "kw \<noteq> []"
  shows "\<not> str_includes (toLowerCase q) kw"
proof
  assume "str_includes (toLowerCase q) kw"
  then have "set kw \<subseteq> set (toLowerCase q)"
    by (simp add: str_includes_sublist set_mono_sublist del: str_includes.simps)
  moreover have "hd kw \<in> set kw" using assms(3) by simp
  ultimately obtain c where "c \<in> set q" "hd kw = toLowerCaseChar c"
    by (auto simp: toLowerCase_def)
  with assms(1,2) show False using lower_alnum_is_alnum by metis
qed

lemma str_includes_Nil: "str_includes s []"
  by (cases s) simp_all

lemma assembled_parts:
  "\<exists>E P D. assembled ns cd q = baseContexts cd @ E @ P @ D
     \<and> set E \<subseteq> experienceText ns ` set (experience cd)
     \<and> set P \<subseteq> projectText ` set (apps cd)
     \<and> set D \<subseteq> educationLine ` set (education cd)"
  unfolding assembled_def
  by (intro exI conjI, rule refl) auto

lemma fallback_Inr:
  "getFallbackContext ns cd q = Inr ctxs \<Longrightarrow> ctxs = take 10 (assembled ns cd q)"
  by (simp add: getFallbackContext_assembled split: if_splits)

lemma experience_at:
  assumes "ctxs = take 10 (baseContexts cd @ map f exps @ rest)" "j < length exps" "j < 6"
  shows "4 + j < length ctxs \<and> ctxs ! (4 + j) = f (exps ! j)"
proof -
  have b: "length (baseContexts cd) = 4" by (simp add: baseContexts_def)
  let ?xs = "baseContexts cd @ map f exps @ rest"
  have l: "4 + j < length ?xs" using assms(2) b by simp
  have "?xs ! (4 + j) = (map f exps @ rest) ! j"
    using b by (metis nth_append_length_plus)
  also have "\<dots> = f (exps ! j)" using assms(2) by (simp add: nth_append)
  finally have x: "?xs ! (4 + j) = f (exps ! j)" .
  have "length (take 10 ?xs) = min (length ?xs) 10" by (rule length_take)
  then have "4 + j < length (take 10 ?xs)" using l assms(3) by linarith
  moreover have "take 10 ?xs ! (4 + j) = ?xs ! (4 + j)"
    using assms(3) by (intro nth_take) linarith
  ultimately show ?thesis unfolding assms(1) using x by (simp only:)
qed

text \<open>
  Seven experience entries, of which the last is Acme Corp: the query names the company and
  selects the experience block, but the returned list stops after the sixth entry.
\<close>

theorem capped_company_counterexample:
  "acme \<in> set (experience sevenContent)
   \<and> str_includes acmeQuery (company acme)
   \<and> experienceSelected sevenContent acmeQuery
   \<and> getFallbackContext natToString sevenContent acmeQuery
       = Inr (baseContexts sevenContent @ replicate 6 (experienceText natToString globex))
   \<and> experienceText natToString acme
       \<notin> set (baseContexts sevenContent @ replicate 6 (experienceText natToString globex))"
  by code_simp

text \<open>
  C6 (as the code has it): the selector pushes one context string per experience entry,
  after the four unconditional strings, exactly when the lower-cased query contains one of
  the experience keywords or the normalised query and the normalised company name of some
  entry contain one another. The returned list is the first ten strings pushed, so it holds
  the strings of the first six experience entries, at the positions after the four
  unconditional strings, and what was pushed after the tenth string is cut. In particular a
  query that contains an entry's company name selects the experience entries, whatever else
  it says, and the list holds that entry's string when the entry is among the first six.
\<close>

theorem experience_included_iff_selected:
  assumes "getFallbackContext ns cd q = Inr ctxs"
  shows "ctxs = take 10 (baseContexts cd
                 @ (if experienceSelected cd q then map (experienceText ns) (experience cd) else [])
                 @ (if projectsSelected q then map projectText (apps cd) else [])
                 @ (if educationSelected q then map educationLine (education cd) else []))
         \<and> (\<forall>e \<in> set (experience cd). str_includes q (company e) \<longrightarrow> experienceSelected cd q)
         \<and> (experienceSelected cd q \<longrightarrow>
               (\<forall>j < length (experience cd). j < 6 \<longrightarrow>
                  4 + j < length ctxs
                  \<and> ctxs ! (4 + j) = experienceText ns (experience cd ! j)))
         \<and> (\<forall>j < length (experience cd).
               str_includes q (company (experience cd ! j)) \<longrightarrow> j < 6 \<longrightarrow>
                 4 + j < length ctxs
                 \<and> ctxs ! (4 + j) = experienceText ns (experience cd ! j))"
proof -
  let ?rest = "(if projectsSelected q then map projectText (apps cd) else [])
               @ (if educationSelected q then map educationLine (education cd) else [])"
  have c: "ctxs = take 10 (baseContexts cd
                 @ (if experienceSelected cd q then map (experienceText ns) (experience cd) else [])
                 @ ?rest)"
    using fallback_Inr [OF assms] by (simp only: assembled_def)
  have p1: "ctxs = take 10 (baseContexts cd
                 @ (if experienceSelected cd q then map (experienceText ns) (experience cd) else [])
                 @ (if projectsSelected q then map projectText (apps cd) else [])
                 @ (if educationSelected q then map educationLine (education cd) else []))"
    using c by simp
  have p2: "\<forall>e \<in> set (experience cd). str_includes q (company e) \<longrightarrow> experienceSelected cd q"
    using company_in_query by blast
  have at: "4 + j < length ctxs \<and> ctxs ! (4 + j) = experienceText ns (experience cd ! j)"
    if "experienceSelected cd q" "j < length (experience cd)" "j < 6" for j
  proof -
    from that(1) c have "ctxs = take 10 (baseContexts cd
        @ map (experienceText ns) (experience cd) @ ?rest)"
      by simp
    from experience_at [OF this that(2,3)] show ?thesis .
  qed
  have p3: "experienceSelected cd q \<longrightarrow>
               (\<forall>j < length (experience cd). j < 6 \<longrightarrow>
                  4 + j < length ctxs
                  \<and> ctxs ! (4 + j) = experienceText ns (experience cd ! j))"
    using at by blast
  have p4: "\<forall>j < length (experience cd).
               str_includes q (company (experience cd ! j)) \<longrightarrow> j < 6 \<longrightarrow>
                 4 + j < length ctxs
                 \<and> ctxs ! (4 + j) = experienceText ns (experience cd ! j)"
  proof (intro allI impI)
    fix j assume j: "j < length (experience cd)"
      "str_includes q (company (experience cd ! j))" "j < 6"
    from j(1) have "experience cd ! j \<in> set (experience cd)" by simp
    with p2 j(2) have "experienceSelected cd q" by blast
    from at [OF this j(1,3)]
    show "4 + j < length ctxs \<and> ctxs ! (4 + j) = experienceText ns (experience cd ! j)" .
  qed
  from p1 p2 p3 p4 show ?thesis by blast
qed

theorem experience_included_iff_selected_witness:
  "getFallbackContext natToString exampleContent acmeQuery = Inr acmeContexts
   \<and> \<not> str_includes (toLowerCase acmeQuery) ''experience''
   \<and> str_includes acmeQuery (company (experience exampleContent ! 0))
   \<and> experienceSelected exampleContent acmeQuery
   \<and> acmeContexts ! (4 + 0) = experienceText natToString (experience exampleContent ! 0)
   \<and> acmeContexts ! (4 + 1) = experienceText natToString (experience exampleContent ! 1)"
proof -
  have h: "getFallbackContext natToString exampleContent acmeQuery = Inr acmeContexts"
    by code_simp
  have n: "\<not> str_includes (toLowerCase acmeQuery) ''experience''"
    by code_simp
  have s: "experienceSelected exampleContent acmeQuery"
    by code_simp
  have c: "str_includes acmeQuery (company (experience exampleContent ! 0))"
    by code_simp
  have l: "0 < length (experience exampleContent)" "1 < length (experience exampleContent)"
    by code_simp+
  have six: "(0::nat) < 6" "(1::nat) < 6" by simp_all
  from experience_included_iff_selected [OF h] have
    a: "experienceSelected exampleContent acmeQuery \<longrightarrow>
         (\<forall>j < length (experience exampleContent). j < 6 \<longrightarrow>
            4 + j < length acmeContexts
            \<and> acmeContexts ! (4 + j) = experienceText natToString (experience exampleContent ! j))"
    by blast
  from a s l six h n c show ?thesis by blast
qed

text \<open>
  C8: the list that the selector returns has at most ten strings, and it is the first ten
  of the assembled list: the four about, contact and skills strings, then experience
  strings, then project strings, then education strings.
\<close>

theorem fallback_first_ten_in_order:
  assumes "getFallbackContext ns cd q = Inr ctxs"
  shows "length ctxs \<le> 10 \<and> ctxs = take 10 (assembled ns cd q)
         \<and> length (baseContexts cd) = 4
         \<and> (\<exists>E P D. assembled ns cd q = baseContexts cd @ E @ P @ D
               \<and> set E \<subseteq> experienceText ns ` set (experience cd)
               \<and> set P \<subseteq> projectText ` set (apps cd)
               \<and> set D \<subseteq> educationLine ` set (education cd))"
proof -
  have t: "ctxs = take 10 (assembled ns cd q)" using assms by (rule fallback_Inr)
  then have "length ctxs \<le> 10" by simp
  moreover have "length (baseContexts cd) = 4" by (simp add: baseContexts_def)
  ultimately show ?thesis using t assembled_parts [of ns cd q] by blast
qed

theorem fallback_first_ten_in_order_witness:
  "length (assembled natToString crowdedContent ''his work and projects'') = 13
   \<and> getFallbackContext natToString crowdedContent ''his work and projects''
       = Inr (take 10 (assembled natToString crowdedContent ''his work and projects''))
   \<and> take 10 (assembled natToString crowdedContent ''his work and projects'')
       = baseContexts crowdedContent @ replicate 6 (experienceText natToString globex)
   \<and> length (take 10 (assembled natToString crowdedContent ''his work and projects'')) \<le> 10"
proof -
  have n: "length (assembled natToString crowdedContent ''his work and projects'') = 13"
    by code_simp
  have h: "getFallbackContext natToString crowdedContent ''his work and projects''
             = Inr (take 10 (assembled natToString crowdedContent ''his work and projects''))"
    by code_simp
  have t: "take 10 (assembled natToString crowdedContent ''his work and projects'')
             = baseContexts crowdedContent @ replicate 6 (experienceText natToString globex)"
    by code_simp
  from fallback_first_ten_in_order [OF h] n h t show ?thesis by blast
qed

text \<open>
  For the query \<open>?!\<close> and seven or eight experience entries the returned list stops
  after the sixth entry.
\<close>

theorem no_alnum_cap_counterexample:
  "filter isAlnum ''?!'' = []
   \<and> acme \<in> set (experience sevenContent)
   \<and> getFallbackContext natToString sevenContent ''?!''
       = Inr (baseContexts sevenContent @ replicate 6 (experienceText natToString globex))
   \<and> experienceText natToString acme
       \<notin> set (baseContexts sevenContent @ replicate 6 (experienceText natToString globex))
   \<and> length (experience crowdedContent) = 8
   \<and> getFallbackContext natToString crowdedContent ''?!''
       = Inr (baseContexts crowdedContent @ replicate 6 (experienceText natToString globex))"
  by code_simp

text \<open>
  C10 (as the code has it): when the query has no letter or digit, its normalisation is
  empty, the company test succeeds for every experience entry, and the selector pushes every
  experience entry although the query contains none of the experience keywords. The
  returned list is the four unconditional strings and then the strings of the first six
  experience entries: all of them when there are at most six.
\<close>

theorem no_alnum_query_includes_all_experience:
  assumes "\<forall>c \<in> set q. \<not> isAlnum c"
  shows "normalizeText q = []
         \<and> (\<forall>e \<in> set (experience cd). companyMatch q e)
         \<and> companyMatches cd (toLowerCase q) = map company (experience cd)
         \<and> (\<forall>kw \<in> set experienceKeywords. \<not> str_includes (toLowerCase q) kw)
         \<and> getFallbackContext ns cd q
             = Inr (take 10 (baseContexts cd @ map (experienceText ns) (experience cd)))
         \<and> (\<exists>ctxs. getFallbackContext ns cd q = Inr ctxs
               \<and> length ctxs = min 10 (4 + length (experience cd))
               \<and> take 4 ctxs = baseContexts cd
               \<and> (\<forall>j < length (experience cd). j < 6 \<longrightarrow>
                     ctxs ! (4 + j) = experienceText ns (experience cd ! j))
               \<and> (length (experience cd) \<le> 6 \<longrightarrow>
                     ctxs = baseContexts cd @ map (experienceText ns) (experience cd)))"
proof -
  have n: "normalizeText q = []" using assms by (rule normalize_no_alnum)
  have m: "\<forall>e \<in> set (experience cd). companyMatch q e"
    by (simp add: companyMatch_def n str_includes_Nil del: str_includes.simps)
  have cm: "companyMatches cd (toLowerCase q) = map company (experience cd)"
    using m by (simp add: companyMatches_filter)
  have kw: "\<not> str_includes (toLowerCase q) k" if "isLowerAlnum (hd k)" "k \<noteq> []" for k
    using assms that by (rule no_keyword)
  have k1: "\<forall>kw \<in> set experienceKeywords. \<not> str_includes (toLowerCase q) kw"
    unfolding experienceKeywords_def
    by (simp add: kw isLowerAlnum_def del: str_includes.simps)
  have k2: "\<not> projectsSelected q"
    unfolding projectsSelected_def
    by (simp add: kw isLowerAlnum_def del: str_includes.simps)
  have k3: "\<not> educationSelected q"
    unfolding educationSelected_def
    by (simp add: kw isLowerAlnum_def del: str_includes.simps)
  have sel: "experienceSelected cd q \<longleftrightarrow> experience cd \<noteq> []"
  proof (cases "experience cd")
    case Nil
    then show ?thesis using k1 by (simp add: experienceSelected_def del: str_includes.simps)
  next
    case (Cons e es)
    then have "e \<in> set (experience cd)" by simp
    with m have "\<exists>e \<in> set (experience cd). companyMatch q e" by blast
    then have "experienceSelected cd q" by (simp add: experienceSelected_def del: str_includes.simps)
    then show ?thesis using Cons by simp
  qed
  let ?ctxs = "take 10 (baseContexts cd @ map (experienceText ns) (experience cd))"
  have "assembled ns cd q = baseContexts cd @ map (experienceText ns) (experience cd)"
    by (simp add: assembled_def k2 k3 sel)
  then have g: "getFallbackContext ns cd q = Inr ?ctxs"
    by (simp add: getFallbackContext_assembled k3)
  have b: "length (baseContexts cd) = 4" by (simp add: baseContexts_def)
  have len: "length ?ctxs = min 10 (4 + length (experience cd))" using b by simp
  have base: "take 4 ?ctxs = baseContexts cd" using b by simp
  have at: "\<forall>j < length (experience cd). j < 6 \<longrightarrow>
              ?ctxs ! (4 + j) = experienceText ns (experience cd ! j)"
    using experience_at [of ?ctxs cd "experienceText ns" "experience cd" "[]"] by simp
  have all: "length (experience cd) \<le> 6 \<longrightarrow>
               ?ctxs = baseContexts cd @ map (experienceText ns) (experience cd)"
    using b by simp
  from n m cm k1 g len base at all show ?thesis by blast
qed

theorem no_alnum_query_includes_all_experience_witness:
  "filter isAlnum ''?!'' = []
   \<and> getFallbackContext natToString exampleContent ''?!''
       = Inr (take 10 (baseContexts exampleContent
                        @ map (experienceText natToString) (experience exampleContent)))
   \<and> getFallbackContext natToString exampleContent ''?!'' = Inr acmeContexts"
proof -
  have h: "\<forall>c \<in> set ''?!''. \<not> isAlnum c" by code_simp
  have e: "getFallbackContext natToString exampleContent ''?!'' = Inr acmeContexts" by code_simp
  have f: "filter isAlnum ''?!'' = []" by code_simp
  from no_alnum_query_includes_all_experience [OF h, of exampleContent natToString] f e
  show ?thesis by blast
qed

section \<open>Properties of the retrieval service\<close>

lemma length_assembled: "4 \<le> length (assembled ns cd q)"
  by (simp add: assembled_def baseContexts_def)

lemma fallback_not_empty: "getFallbackContext ns cd q \<noteq> Inr []"
proof
  assume "getFallbackContext ns cd q = Inr []"
  then have "take 10 (assembled ns cd q) = []" by (auto dest: fallback_Inr)
  then show False using length_assembled [of ns cd q] by simp
qed

lemma fallback_at_least_four:
  "getFallbackContext ns cd q = Inr ctxs \<Longrightarrow> 4 \<le> length ctxs"
  using length_assembled [of ns cd q] by (auto dest!: fallback_Inr)

lemma search_None:
  "vectorSearch svc bk q k = None \<Longrightarrow>
     fst (searchVectorStore svc bk ns cd q k) = getFallbackContext ns cd q"
  unfolding vectorSearch_def searchVectorStore_def
  by (auto split: if_splits sum.splits prod.splits)

lemma search_Some:
  "vectorSearch svc bk q k = Some ms \<Longrightarrow>
     fst (searchVectorStore svc bk ns cd q k) = Inr (matchTexts ms)"
  unfolding vectorSearch_def searchVectorStore_def
  by (auto split: if_splits sum.splits prod.splits)

lemma query_with_contexts:
  assumes "truthy (OPENAI_API_KEY env)"
    and "fst (searchVectorStore (initialize svc env bk) bk ns cd q 5) = Inr ctxs"
  shows "fst (query svc env bk ns cd q h)
           = (case fst (generate bk (buildPrompt q ctxs h)) of
                Inl e \<Rightarrow> classifyFailure e | Inr r \<Rightarrow> Inr r)"
    and "last (snd (snd (query svc env bk ns cd q h)))
           = ChatCompletionsCreate ''gpt-4o-mini'' systemMessage (buildPrompt q ctxs h)"
  using assms unfolding query_def Let_def generate_def
  by (auto split: prod.splits sum.splits)

lemma no_pinecone_key:
  "\<not> truthy (PINECONE_API_KEY env) \<Longrightarrow> pinecone (initialize (newRAGService env) env bk) = None"
  unfolding initialize_def newRAGService_def
  by (auto split: option.splits)

text \<open>
  A search that succeeds with zero matches: the prompt is built from the empty context
  list, and the fallback selector, which has six strings for this query, is not consulted.
\<close>

theorem zero_matches_counterexample:
  "vectorSearch (initialize (newRAGService exampleEnv) exampleEnv emptyIndexBackends)
       emptyIndexBackends acmeQuery 5 = Some (Some [])
   \<and> snd (snd (query (newRAGService exampleEnv) exampleEnv emptyIndexBackends natToString
                   exampleContent acmeQuery []))
       = [EmbeddingsCreate ''text-embedding-3-small'' acmeQuery,
          IndexQuery ''portfolio-chatbot'' [1, 2, 3] 5,
          ChatCompletionsCreate ''gpt-4o-mini'' systemMessage (buildPrompt acmeQuery [] [])]
   \<and> getFallbackContext natToString exampleContent acmeQuery = Inr acmeContexts
   \<and> buildPrompt acmeQuery [] [] \<noteq> buildPrompt acmeQuery acmeContexts []"
  by code_simp

text \<open>
  C1 (as the code has it): the context strings of the prompt come from one source only.
  When the vector search succeeds they are the texts of its matches, also when there is
  none, and then the context list is empty; when no client is configured or the search
  throws they are the strings of the fallback selector. The two are never merged.
\<close>

theorem contexts_from_one_source:
  assumes "truthy (OPENAI_API_KEY env)"
  shows "(case vectorSearch (initialize svc env bk) bk q 5 of
            Some ms \<Rightarrow>
              fst (searchVectorStore (initialize svc env bk) bk ns cd q 5) = Inr (matchTexts ms)
              \<and> last (snd (snd (query svc env bk ns cd q h)))
                  = ChatCompletionsCreate ''gpt-4o-mini'' systemMessage
                      (buildPrompt q (matchTexts ms) h)
              \<and> ((ms = None \<or> ms = Some []) \<longrightarrow> matchTexts ms = [])
          | None \<Rightarrow>
              fst (searchVectorStore (initialize svc env bk) bk ns cd q 5)
                = getFallbackContext ns cd q
              \<and> (\<forall>ctxs. getFallbackContext ns cd q = Inr ctxs \<longrightarrow>
                    last (snd (snd (query svc env bk ns cd q h)))
                      = ChatCompletionsCreate ''gpt-4o-mini'' systemMessage
                          (buildPrompt q ctxs h)))"
proof (cases "vectorSearch (initialize svc env bk) bk q 5")
  case None
  then have s: "fst (searchVectorStore (initialize svc env bk) bk ns cd q 5)
                  = getFallbackContext ns cd q"
    by (rule search_None)
  show ?thesis
    using None s query_with_contexts(2) [OF assms, of svc bk ns cd q _ h] by simp
next
  case (Some ms)
  then have s: "fst (searchVectorStore (initialize svc env bk) bk ns cd q 5) = Inr (matchTexts ms)"
    by (rule search_Some)
  have "(ms = None \<or> ms = Some []) \<longrightarrow> matchTexts ms = []"
    by (auto simp: matchTexts_def)
  then show ?thesis
    using Some s query_with_contexts(2) [OF assms s, of h] by simp
qed

theorem contexts_from_one_source_witness:
  "truthy (OPENAI_API_KEY exampleEnv)
   \<and> vectorSearch (initialize (newRAGService exampleEnv) exampleEnv emptyIndexBackends)
        emptyIndexBackends acmeQuery 5 = Some (Some [])
   \<and> fst (searchVectorStore (initialize (newRAGService exampleEnv) exampleEnv emptyIndexBackends)
            emptyIndexBackends natToString exampleContent acmeQuery 5) = Inr []
   \<and> last (snd (snd (query (newRAGService exampleEnv) exampleEnv emptyIndexBackends natToString
                         exampleContent acmeQuery [])))
       = ChatCompletionsCreate ''gpt-4o-mini'' systemMessage (buildPrompt acmeQuery [] [])"
proof -
  have k: "truthy (OPENAI_API_KEY exampleEnv)" by code_simp
  have v: "vectorSearch (initialize (newRAGService exampleEnv) exampleEnv emptyIndexBackends)
             emptyIndexBackends acmeQuery 5 = Some (Some [])"
    by code_simp
  have m: "matchTexts (Some []) = []" by (simp add: matchTexts_def)
  from contexts_from_one_source [OF k, where svc = "newRAGService exampleEnv"
      and bk = emptyIndexBackends and q = acmeQuery and ns = natToString
      and cd = exampleContent and h = "[]"]
  show ?thesis using k v m by simp
qed

text \<open>
  Without a Pinecone key, and with an index query that throws, \<open>searchVectorStore\<close>
  returns the six fallback strings, not the empty list.
\<close>

theorem no_backend_counterexample:
  "pinecone (initialize (newRAGService noPineconeEnv) noPineconeEnv missingIndexBackends) = None
   \<and> fst (searchVectorStore
            (initialize (newRAGService noPineconeEnv) noPineconeEnv missingIndexBackends)
            missingIndexBackends natToString exampleContent acmeQuery 5) = Inr acmeContexts
   \<and> fst (searchVectorStore
            (initialize (newRAGService exampleEnv) exampleEnv missingIndexBackends)
            missingIndexBackends natToString exampleContent acmeQuery 5) = Inr acmeContexts
   \<and> acmeContexts \<noteq> []"
  by code_simp

lemma classifyFailure_undefinedJoin: "classifyFailure undefinedJoin = Inl undefinedJoin"
proof -
  have "\<not> str_includes (message undefinedJoin) ''API key''" by code_simp
  then show ?thesis by (simp add: classifyFailure_def del: str_includes.simps)
qed

lemma fallback_Inl:
  "getFallbackContext ns cd q = Inl e \<Longrightarrow>
     e = undefinedJoin \<and> educationSelected q \<and> (\<exists>edu \<in> set (education cd). courses edu = None)"
  by (simp add: getFallbackContext_assembled split: if_splits)

lemma query_fallback_error:
  assumes "truthy (OPENAI_API_KEY env)"
    and "fst (searchVectorStore (initialize svc env bk) bk ns cd q 5) = Inl e"
  shows "fst (query svc env bk ns cd q h) = classifyFailure e"
    and "snd (snd (query svc env bk ns cd q h))
           = snd (searchVectorStore (initialize svc env bk) bk ns cd q 5)"
  using assms unfolding query_def Let_def
  by (auto split: prod.splits sum.splits)

text \<open>
  C3 (as the code has it): when no Pinecone key is configured, or the embedding call or the
  index query throws, \<open>searchVectorStore\<close> itself returns what the fallback selector
  returns. That is never the empty list: it is a list of at least four strings, or the
  selector's own \<open>TypeError\<close> for an education query on an entry without courses. What
  the search threw reaches nobody. With an OpenAI key, \<open>query\<close> then returns the result
  of the completion request on the prompt built from the fallback strings, or rethrows the
  selector's \<open>TypeError\<close> without a completion request; without the key it returns the
  fixed message.
\<close>

theorem search_failure_degrades_to_fallback:
  assumes "(\<not> truthy (PINECONE_API_KEY env) \<and> svc = newRAGService env)
           \<or> vectorSearch (initialize svc env bk) bk q 5 = None"
  shows "fst (searchVectorStore (initialize svc env bk) bk ns cd q 5) = getFallbackContext ns cd q
         \<and> getFallbackContext ns cd q \<noteq> Inr []
         \<and> (\<forall>ctxs. getFallbackContext ns cd q = Inr ctxs \<longrightarrow>
               4 \<le> length ctxs
               \<and> (truthy (OPENAI_API_KEY env) \<longrightarrow>
                    fst (query svc env bk ns cd q h)
                      = (case fst (generate bk (buildPrompt q ctxs h)) of
                           Inl e \<Rightarrow> classifyFailure e | Inr r \<Rightarrow> Inr r)
                    \<and> last (snd (snd (query svc env bk ns cd q h)))
                        = ChatCompletionsCreate ''gpt-4o-mini'' systemMessage
                            (buildPrompt q ctxs h)))
         \<and> (\<forall>e. getFallbackContext ns cd q = Inl e \<longrightarrow>
               e = undefinedJoin \<and> educationSelected q
               \<and> (\<exists>edu \<in> set (education cd). courses edu = None)
               \<and> (truthy (OPENAI_API_KEY env) \<longrightarrow>
                    fst (query svc env bk ns cd q h) = Inl undefinedJoin
                    \<and> snd (snd (query svc env bk ns cd q h))
                        = snd (searchVectorStore (initialize svc env bk) bk ns cd q 5)))
         \<and> (\<not> truthy (OPENAI_API_KEY env) \<longrightarrow>
               query svc env bk ns cd q h
                 = (Inr notConfiguredMessage, initialize svc env bk, []))"
proof -
  have v: "vectorSearch (initialize svc env bk) bk q 5 = None"
    using assms no_pinecone_key [of env bk] by (auto simp: vectorSearch_def)
  then have s: "fst (searchVectorStore (initialize svc env bk) bk ns cd q 5)
                  = getFallbackContext ns cd q"
    by (rule search_None)
  have p3: "\<forall>ctxs. getFallbackContext ns cd q = Inr ctxs \<longrightarrow>
               4 \<le> length ctxs
               \<and> (truthy (OPENAI_API_KEY env) \<longrightarrow>
                    fst (query svc env bk ns cd q h)
                      = (case fst (generate bk (buildPrompt q ctxs h)) of
                           Inl e \<Rightarrow> classifyFailure e | Inr r \<Rightarrow> Inr r)
                    \<and> last (snd (snd (query svc env bk ns cd q h)))
                        = ChatCompletionsCreate ''gpt-4o-mini'' systemMessage
                            (buildPrompt q ctxs h))"
    using s fallback_at_least_four [of ns cd q] query_with_contexts [of env svc bk ns cd q _ h]
    by simp
  have p4: "\<forall>e. getFallbackContext ns cd q = Inl e \<longrightarrow>
               e = undefinedJoin \<and> educationSelected q
               \<and> (\<exists>edu \<in> set (education cd). courses edu = None)
               \<and> (truthy (OPENAI_API_KEY env) \<longrightarrow>
                    fst (query svc env bk ns cd q h) = Inl undefinedJoin
                    \<and> snd (snd (query svc env bk ns cd q h))
                        = snd (searchVectorStore (initialize svc env bk) bk ns cd q 5))"
  proof (intro allI impI conjI)
    fix e assume e: "getFallbackContext ns cd q = Inl e"
    from fallback_Inl [OF e]
    show "e = undefinedJoin" "educationSelected q"
      "\<exists>edu \<in> set (education cd). courses edu = None"
      by blast+
    assume k: "truthy (OPENAI_API_KEY env)"
    have se: "fst (searchVectorStore (initialize svc env bk) bk ns cd q 5) = Inl e"
      using s e by simp
    show "fst (query svc env bk ns cd q h) = Inl undefinedJoin"
      using query_fallback_error(1) [OF k se] \<open>e = undefinedJoin\<close> classifyFailure_undefinedJoin
      by simp
    show "snd (snd (query svc env bk ns cd q h))
            = snd (searchVectorStore (initialize svc env bk) bk ns cd q 5)"
      by (rule query_fallback_error(2) [OF k se])
  qed
  have p5: "\<not> truthy (OPENAI_API_KEY env) \<longrightarrow>
               query svc env bk ns cd q h
                 = (Inr notConfiguredMessage, initialize svc env bk, [])"
    by (simp add: query_def Let_def)
  from s fallback_not_empty [of ns cd q] p3 p4 p5 show ?thesis by blast
qed

theorem search_failure_degrades_to_fallback_witness:
  "vectorSearch (initialize (newRAGService exampleEnv) exampleEnv missingIndexBackends)
        missingIndexBackends acmeQuery 5 = None
   \<and> fst (searchVectorStore (initialize (newRAGService exampleEnv) exampleEnv missingIndexBackends)
            missingIndexBackends natToString exampleContent acmeQuery 5)
       = getFallbackContext natToString exampleContent acmeQuery
   \<and> fst (query (newRAGService exampleEnv) exampleEnv missingIndexBackends natToString
            exampleContent acmeQuery []) = Inr ''ok''
   \<and> getFallbackContext natToString noCoursesContent ''his degree'' = Inl undefinedJoin
   \<and> fst (query (newRAGService exampleEnv) exampleEnv missingIndexBackends natToString
            noCoursesContent ''his degree'' []) = Inl undefinedJoin
   \<and> snd (snd (query (newRAGService exampleEnv) exampleEnv missingIndexBackends natToString
                   noCoursesContent ''his degree'' []))
       = [EmbeddingsCreate ''text-embedding-3-small'' ''his degree'',
          IndexQuery ''portfolio-chatbot'' [1, 2, 3] 5]"
proof -
  have k: "truthy (OPENAI_API_KEY exampleEnv)" by code_simp
  have v: "vectorSearch (initialize (newRAGService exampleEnv) exampleEnv missingIndexBackends)
             missingIndexBackends acmeQuery 5 = None"
    by code_simp
  have v2: "vectorSearch (initialize (newRAGService exampleEnv) exampleEnv missingIndexBackends)
             missingIndexBackends ''his degree'' 5 = None"
    by code_simp
  have f: "getFallbackContext natToString exampleContent acmeQuery = Inr acmeContexts"
    by code_simp
  have f2: "getFallbackContext natToString noCoursesContent ''his degree'' = Inl undefinedJoin"
    by code_simp
  have g: "fst (generate missingIndexBackends (buildPrompt acmeQuery acmeContexts []))
             = Inr ''ok''"
    by code_simp
  have c: "snd (searchVectorStore
                  (initialize (newRAGService exampleEnv) exampleEnv missingIndexBackends)
                  missingIndexBackends natToString noCoursesContent ''his degree'' 5)
             = [EmbeddingsCreate ''text-embedding-3-small'' ''his degree'',
                IndexQuery ''portfolio-chatbot'' [1, 2, 3] 5]"
    by code_simp
  note a = search_failure_degrades_to_fallback [OF disjI2, OF v, where ns = natToString and cd = exampleContent and h = "[]"]
  note b = search_failure_degrades_to_fallback [OF disjI2, OF v2, where ns = natToString and cd = noCoursesContent
      and h = "[]"]
  from a f k g have
    "fst (query (newRAGService exampleEnv) exampleEnv missingIndexBackends natToString
            exampleContent acmeQuery []) = Inr ''ok''"
    by simp
  moreover from b f2 k c have
    "fst (query (newRAGService exampleEnv) exampleEnv missingIndexBackends natToString
            noCoursesContent ''his degree'' []) = Inl undefinedJoin
     \<and> snd (snd (query (newRAGService exampleEnv) exampleEnv missingIndexBackends natToString
                   noCoursesContent ''his degree'' []))
       = [EmbeddingsCreate ''text-embedding-3-small'' ''his degree'',
          IndexQuery ''portfolio-chatbot'' [1, 2, 3] 5]"
    by simp
  moreover from a have
    "fst (searchVectorStore (initialize (newRAGService exampleEnv) exampleEnv missingIndexBackends)
            missingIndexBackends natToString exampleContent acmeQuery 5)
       = getFallbackContext natToString exampleContent acmeQuery"
    by blast
  ultimately show ?thesis using v f2 by blast
qed

text \<open>
  C4: without an OpenAI key, \<open>query\<close> returns the fixed message that names the direct
  contact, and the log of backend calls is empty: no embedding, index or completion call.
\<close>

theorem query_without_api_key:
  assumes "\<not> truthy (OPENAI_API_KEY env)"
  shows "query svc env bk ns cd q h = (Inr notConfiguredMessage, initialize svc env bk, [])
         \<and> str_includes notConfiguredMessage ''reach out directly at uharishraj@gmail.com''"
proof -
  have "str_includes notConfiguredMessage ''reach out directly at uharishraj@gmail.com''"
    by code_simp
  then show ?thesis using assms by (simp add: query_def Let_def del: str_includes.simps)
qed

theorem query_without_api_key_witness:
  "\<not> truthy (OPENAI_API_KEY noKeyEnv)
   \<and> query (newRAGService noKeyEnv) noKeyEnv missingIndexBackends natToString exampleContent
       acmeQuery []
     = (Inr notConfiguredMessage,
        initialize (newRAGService noKeyEnv) noKeyEnv missingIndexBackends, [])"
proof -
  have k: "\<not> truthy (OPENAI_API_KEY noKeyEnv)" by code_simp
  from query_without_api_key [OF k] k show ?thesis by blast
qed


section \<open>Properties of the document processor\<close>

text \<open>
  The recorded loop is the loop of \<open>chunkText\<close>: the chunks are its buffers trimmed, the
  last one left out when its trimmed text is empty.
\<close>

lemma traceLoop_nonempty: "traceLoop dp ss cur us closed \<noteq> []"
  by (induction ss arbitrary: cur us closed) auto

lemma chunkLoop_traceLoop:
  "chunkLoop dp ss cur (map (js_trim \<circ> fst) closed)
     = (map (js_trim \<circ> fst) (butlast (traceLoop dp ss cur us closed)),
        fst (last (traceLoop dp ss cur us closed)))"
proof (induction ss arbitrary: cur us closed)
  case Nil
  then show ?case by simp
next
  case (Cons u ss)
  show ?case
  proof (cases "int (length (cur @ u)) > chunkSize dp \<and> length cur > 0")
    case True
    then show ?thesis
      using Cons.IH [of "js_join '' '' (overlapWords dp cur) @ '' '' @ u" "closed @ [(cur, us)]" "[u]"]
      by simp
  next
    case False
    then show ?thesis using Cons.IH [of "cur @ u" closed "us @ [u]"] by auto
  qed
qed

lemma chunkText_trace:
  "chunkText dp s =
     map (js_trim \<circ> fst)
       (if length (js_trim (fst (last (chunkTrace dp s)))) > 0 then chunkTrace dp s
        else butlast (chunkTrace dp s))"
proof -
  let ?tr = "chunkTrace dp s"
  have loop: "chunkLoop dp (sentencesOf (cleanText s)) [] []
                = (map (js_trim \<circ> fst) (butlast ?tr), fst (last ?tr))"
    using chunkLoop_traceLoop [of dp "sentencesOf (cleanText s)" "[]" "[]" "[]"]
    by (simp add: chunkTrace_def)
  have ne: "?tr \<noteq> []" by (simp add: chunkTrace_def traceLoop_nonempty)
  have "map (js_trim \<circ> fst) ?tr
          = map (js_trim \<circ> fst) (butlast ?tr) @ [js_trim (fst (last ?tr))]"
    using ne by (metis (no_types, lifting) append_butlast_last_id list.simps(8,9) map_append comp_apply)
  then show ?thesis using loop by (simp add: chunkText_def Let_def)
qed

lemma traceLoop_units:
  "concat (map snd (traceLoop dp ss cur us closed)) = concat (map snd closed) @ us @ ss"
  by (induction ss arbitrary: cur us closed) auto

text \<open>
  The recorded buffers keep the shape \<open>traceChain\<close>, and their units are the sentence
  units of the text, in order.
\<close>

lemma traceChain_snoc:
  "traceChain dp prev (es @ [e]) \<longleftrightarrow>
     traceChain dp prev es \<and> entryOk dp (if es = [] then prev else Some (fst (last es))) e"
  by (induction es arbitrary: prev) auto

lemma traceChain_nth:
  "traceChain dp prev es \<Longrightarrow> i < length es \<Longrightarrow>
     entryOk dp (if i = 0 then prev else Some (fst (es ! (i - 1)))) (es ! i)"
proof (induction es arbitrary: prev i)
  case Nil
  then show ?case by simp
next
  case (Cons e es)
  show ?case
  proof (cases i)
    case 0
    with Cons.prems show ?thesis by simp
  next
    case (Suc j)
    with Cons.prems have "traceChain dp (Some (fst e)) es" "j < length es" by auto
    from Cons.IH [OF this] show ?thesis using Suc by (cases j) auto
  qed
qed

lemma entryOk_append:
  assumes "entryOk dp prev (cur, us)" "u \<noteq> []" "\<forall>v \<in> set us. v \<noteq> []"
    and "\<not> (int (length (cur @ u)) > chunkSize dp \<and> length cur > 0)"
  shows "entryOk dp prev (cur @ u, us @ [u])"
proof (cases prev)
  case None
  with assms(1) have b: "cur = concat us" by simp
  show ?thesis
  proof (cases "us = []")
    case True
    with b None show ?thesis by simp
  next
    case False
    then have "cur \<noteq> []" using b assms(3) by (cases us) auto
    with assms(4) have "int (length (cur @ u)) \<le> chunkSize dp" by simp
    with b None show ?thesis by simp
  qed
next
  case (Some p)
  with assms(1) have e: "us \<noteq> []" "p \<noteq> []" "int (length (p @ hd us)) > chunkSize dp"
    "cur = seedBuffer dp p (hd us) @ concat (tl us)"
    by auto
  then have "cur \<noteq> []" by (simp add: seedBuffer_def)
  with assms(4) have "int (length (cur @ u)) \<le> chunkSize dp" by simp
  with e Some show ?thesis by (cases us) auto
qed

lemma traceLoop_chain:
  assumes "\<forall>u \<in> set ss. u \<noteq> []" "\<forall>v \<in> set us. v \<noteq> []"
    and "traceChain dp None (closed @ [(cur, us)])"
  shows "traceChain dp None (traceLoop dp ss cur us closed)"
  using assms
proof (induction ss arbitrary: cur us closed)
  case Nil
  then show ?case by simp
next
  case (Cons u ss)
  have u: "u \<noteq> []" and ss: "\<forall>u \<in> set ss. u \<noteq> []" using Cons.prems(1) by auto
  have chain: "traceChain dp None closed"
    and ok: "entryOk dp (if closed = [] then None else Some (fst (last closed))) (cur, us)"
    using Cons.prems(3) by (simp_all add: traceChain_snoc)
  show ?case
  proof (cases "int (length (cur @ u)) > chunkSize dp \<and> length cur > 0")
    case True
    have "entryOk dp (Some cur) (seedBuffer dp cur u, [u])"
      using True by simp
    then have "traceChain dp None ((closed @ [(cur, us)]) @ [(seedBuffer dp cur u, [u])])"
      using Cons.prems(3) by (simp add: traceChain_snoc del: append_assoc)
    moreover have "\<forall>v \<in> set [u]. v \<noteq> []" using u by simp
    ultimately have "traceChain dp None
        (traceLoop dp ss (seedBuffer dp cur u) [u] (closed @ [(cur, us)]))"
      using Cons.IH [OF ss] by blast
    then show ?thesis using True by (simp add: seedBuffer_def)
  next
    case False
    have "entryOk dp (if closed = [] then None else Some (fst (last closed))) (cur @ u, us @ [u])"
      using ok u Cons.prems(2) False by (rule entryOk_append)
    with chain have "traceChain dp None (closed @ [(cur @ u, us @ [u])])"
      by (simp add: traceChain_snoc)
    moreover have "\<forall>v \<in> set (us @ [u]). v \<noteq> []" using u Cons.prems(2) by auto
    ultimately show ?thesis using Cons.IH [OF ss] False by auto
  qed
qed

text \<open>
  After cleaning, the only white space in the text is the single space, and no sentence
  unit ends with one; so no buffer does, and a buffer is its trimmed text after some
  spaces.
\<close>

lemma terminator_not_space: "isTerminator c \<Longrightarrow> \<not> isWhiteSpace c"
  by (auto simp: isTerminator_def isWhiteSpace_def)

lemma space_isWhiteSpace: "isWhiteSpace CHR '' ''"
  by (simp add: isWhiteSpace_def)

lemma collapseWhiteSpace_chars:
  "c \<in> set (collapseWhiteSpace x) \<Longrightarrow> isWhiteSpace c \<Longrightarrow> c = CHR '' ''"
proof (induction x rule: collapseWhiteSpace.induct)
  case 1
  then show ?case by simp
next
  case (2 d ds)
  then show ?case by (auto split: if_splits)
qed

lemma set_js_trim: "set (js_trim x) \<subseteq> set x"
proof -
  have "set (js_trim x) \<subseteq> set (dropWhile isWhiteSpace x)"
    unfolding js_trim_def using set_dropWhileD [of _ isWhiteSpace "rev (dropWhile isWhiteSpace x)"]
    by auto
  also have "\<dots> \<subseteq> set x" using set_dropWhileD by fastforce
  finally show ?thesis .
qed

lemma last_js_trim: "js_trim x = [] \<or> \<not> isWhiteSpace (last (js_trim x))"
proof (cases "dropWhile isWhiteSpace (rev (dropWhile isWhiteSpace x))")
  case Nil
  then show ?thesis by (simp add: js_trim_def)
next
  case (Cons a as)
  then have "\<not> isWhiteSpace a" using hd_dropWhile [of isWhiteSpace "rev (dropWhile isWhiteSpace x)"]
    by (metis list.sel(1) list.distinct(1))
  moreover have "last (js_trim x) = a" using Cons by (simp add: js_trim_def)
  ultimately show ?thesis by simp
qed

lemma cleanBuf_cleanText: "cleanBuf (cleanText s)"
  unfolding cleanBuf_def cleanText_def
  using last_js_trim set_js_trim collapseWhiteSpace_chars by blast

lemma matchSentences_unfold:
  "matchSentences s =
     (if takeWhile (\<lambda>c. \<not> isTerminator c) (dropWhile isTerminator s) = []
         \<or> dropWhile (\<lambda>c. \<not> isTerminator c) (dropWhile isTerminator s) = [] then []
      else (takeWhile (\<lambda>c. \<not> isTerminator c) (dropWhile isTerminator s)
            @ takeWhile isTerminator
                (dropWhile (\<lambda>c. \<not> isTerminator c) (dropWhile isTerminator s)))
           # matchSentences (dropWhile isTerminator
                (dropWhile (\<lambda>c. \<not> isTerminator c) (dropWhile isTerminator s))))"
  using matchSentences.simps [of s] unfolding Let_def .

lemma matchSentences_units:
  "m \<in> set (matchSentences t) \<Longrightarrow> m \<noteq> [] \<and> isTerminator (last m) \<and> set m \<subseteq> set t"
proof (induction t arbitrary: m rule: matchSentences.induct)
  case (1 s)
  let ?s1 = "dropWhile isTerminator s"
  let ?body = "takeWhile (\<lambda>c. \<not> isTerminator c) ?s1"
  let ?s2 = "dropWhile (\<lambda>c. \<not> isTerminator c) ?s1"
  let ?terms = "takeWhile isTerminator ?s2"
  note unf = matchSentences_unfold [of s]
  have ne: "\<not> (?body = [] \<or> ?s2 = [])"
  proof
    assume "?body = [] \<or> ?s2 = []"
    then have "matchSentences s = []" by (simp only: unf if_True)
    with "1.prems" show False by simp
  qed
  then have ms: "matchSentences s = (?body @ ?terms) # matchSentences (dropWhile isTerminator ?s2)"
    by (simp only: unf if_False)
  have s1: "set ?s1 \<subseteq> set s" by (meson set_dropWhileD subsetI)
  have s2: "set ?s2 \<subseteq> set ?s1" by (meson set_dropWhileD subsetI)
  have "?s2 \<noteq> []" using ne by blast
  then have "isTerminator (hd ?s2)"
    using hd_dropWhile [of "\<lambda>c. \<not> isTerminator c" ?s1] by blast
  then have terms_ne: "?terms \<noteq> []" using \<open>?s2 \<noteq> []\<close> by (cases ?s2) simp_all
  from "1.prems" have "m \<in> set ((?body @ ?terms) # matchSentences (dropWhile isTerminator ?s2))"
    by (simp only: ms)
  then have "m = ?body @ ?terms \<or> m \<in> set (matchSentences (dropWhile isTerminator ?s2))"
    by (simp only: set_simps insert_iff)
  then show ?case
  proof
    assume m: "m = ?body @ ?terms"
    have "last m = last ?terms" unfolding m using terms_ne by (rule last_appendR)
    moreover have "last ?terms \<in> set ?terms" using terms_ne by (rule last_in_set)
    then have "isTerminator (last ?terms)" by (rule set_takeWhileD [THEN conjunct2])
    moreover have "set ?body \<subseteq> set ?s1" by (meson set_takeWhileD subsetI)
    moreover have "set ?terms \<subseteq> set ?s2" by (meson set_takeWhileD subsetI)
    ultimately show ?thesis using m s1 s2 terms_ne by auto
  next
    assume "m \<in> set (matchSentences (dropWhile isTerminator ?s2))"
    from "1.IH" [OF refl refl refl ne this]
    have "m \<noteq> [] \<and> isTerminator (last m) \<and> set m \<subseteq> set (dropWhile isTerminator ?s2)" .
    moreover have "set (dropWhile isTerminator ?s2) \<subseteq> set ?s2" by (meson set_dropWhileD subsetI)
    ultimately show ?thesis using s1 s2 by blast
  qed
qed

lemma sentences_units:
  "sentencesOf (cleanText s) = [[]] \<or> (\<forall>u \<in> set (sentencesOf (cleanText s)). unitOk u)"
proof (cases "matchSentences (cleanText s)")
  case Nil
  then have "sentencesOf (cleanText s) = [cleanText s]" by (simp add: sentencesOf_def)
  then show ?thesis using cleanBuf_cleanText [of s] by (auto simp: unitOk_def)
next
  case (Cons m ms)
  then have eq: "sentencesOf (cleanText s) = matchSentences (cleanText s)"
    by (simp add: sentencesOf_def)
  have "unitOk u" if "u \<in> set (matchSentences (cleanText s))" for u
  proof -
    from matchSentences_units [OF that]
    have u: "u \<noteq> []" "isTerminator (last u)" "set u \<subseteq> set (cleanText s)" by auto
    then show ?thesis
      using cleanBuf_cleanText [of s] terminator_not_space
      by (auto simp: unitOk_def cleanBuf_def)
  qed
  then show ?thesis using eq by simp
qed

lemma set_js_join: "set (js_join sep ws) \<subseteq> set sep \<union> \<Union> (set ` set ws)"
  by (induction sep ws rule: js_join.induct) auto

lemma set_js_split: "\<Union> (set ` set (js_split c s)) \<subseteq> set s"
proof (induction s)
  case Nil
  then show ?case by simp
next
  case (Cons a s)
  then show ?case by (cases "js_split c s") (auto split: if_splits)
qed

lemma set_overlapWords: "\<Union> (set ` set (overlapWords dp b)) \<subseteq> set b"
proof -
  have "set (overlapWords dp b) \<subseteq> set (js_split CHR '' '' b)"
    unfolding overlapWords_def js_slice_from_def Let_def using set_drop_subset by fastforce
  then show ?thesis using set_js_split [of "CHR '' ''" b] by blast
qed

lemma cleanBuf_append: "cleanBuf b \<Longrightarrow> unitOk u \<Longrightarrow> cleanBuf (b @ u)"
  by (auto simp: cleanBuf_def unitOk_def)

lemma cleanBuf_seed: "cleanBuf b \<Longrightarrow> unitOk u \<Longrightarrow> cleanBuf (seedBuffer dp b u)"
proof -
  assume b: "cleanBuf b" and u: "unitOk u"
  have "set (js_join '' '' (overlapWords dp b)) \<subseteq> insert CHR '' '' (set b)"
    using set_js_join [of "'' ''" "overlapWords dp b"] set_overlapWords [of dp b] by auto
  then have "\<forall>c \<in> set (seedBuffer dp b u). isWhiteSpace c \<longrightarrow> c = CHR '' ''"
    using b u by (auto simp: seedBuffer_def cleanBuf_def unitOk_def)
  moreover have "last (seedBuffer dp b u) = last u"
    using u by (simp add: seedBuffer_def unitOk_def)
  moreover have "\<not> isWhiteSpace (last u)" using u by (auto simp: unitOk_def cleanBuf_def)
  ultimately show ?thesis unfolding cleanBuf_def by simp
qed

lemma traceLoop_clean:
  assumes "\<forall>u \<in> set ss. unitOk u" "cleanBuf cur" "\<forall>e \<in> set closed. cleanBuf (fst e)"
  shows "\<forall>e \<in> set (traceLoop dp ss cur us closed). cleanBuf (fst e)"
  using assms
proof (induction ss arbitrary: cur us closed)
  case Nil
  then show ?case by simp
next
  case (Cons u ss)
  have u: "unitOk u" and ss: "\<forall>u \<in> set ss. unitOk u" using Cons.prems(1) by auto
  show ?case
  proof (cases "int (length (cur @ u)) > chunkSize dp \<and> length cur > 0")
    case True
    have "cleanBuf (seedBuffer dp cur u)" using Cons.prems(2) u by (rule cleanBuf_seed)
    moreover have "\<forall>e \<in> set (closed @ [(cur, us)]). cleanBuf (fst e)"
      using Cons.prems(2,3) by simp
    ultimately have "\<forall>e \<in> set (traceLoop dp ss (seedBuffer dp cur u) [u] (closed @ [(cur, us)])).
        cleanBuf (fst e)"
      using Cons.IH [OF ss] by blast
    then show ?thesis using True by (simp add: seedBuffer_def)
  next
    case False
    have "cleanBuf (cur @ u)" using Cons.prems(2) u by (rule cleanBuf_append)
    then have "\<forall>e \<in> set (traceLoop dp ss (cur @ u) (us @ [u]) closed). cleanBuf (fst e)"
      using Cons.IH [OF ss _ Cons.prems(3)] by blast
    then show ?thesis using False by auto
  qed
qed

lemma cleanBuf_trim:
  assumes "cleanBuf b"
  shows "\<exists>j. b = replicate j CHR '' '' @ js_trim b"
proof -
  let ?d = "dropWhile isWhiteSpace b"
  have t: "js_trim b = ?d"
  proof (cases "?d = []")
    case True
    show ?thesis unfolding js_trim_def True by simp
  next
    case False
    then have "b \<noteq> []" by auto
    have "last ?d = last b" using False by (metis last_appendR takeWhile_dropWhile_id)
    then have "\<not> isWhiteSpace (last ?d)" using assms \<open>b \<noteq> []\<close> by (simp add: cleanBuf_def)
    then have "\<not> isWhiteSpace (hd (rev ?d))" using False by (simp add: hd_rev)
    then have "dropWhile isWhiteSpace (rev ?d) = rev ?d"
      using False by (cases "rev ?d") auto
    then show ?thesis by (simp add: js_trim_def)
  qed
  have "\<forall>c \<in> set (takeWhile isWhiteSpace b). c = CHR '' ''"
    using assms set_takeWhileD [of _ isWhiteSpace b] by (auto simp: cleanBuf_def)
  then have "takeWhile isWhiteSpace b = replicate (length (takeWhile isWhiteSpace b)) CHR '' ''"
    by (simp add: replicate_length_same)
  then have "b = replicate (length (takeWhile isWhiteSpace b)) CHR '' '' @ ?d"
    by (metis takeWhile_dropWhile_id)
  with t show ?thesis by metis
qed

lemma js_split_ne: "js_split c s \<noteq> []"
  by (induction s) (auto split: list.splits)

lemma js_split_spaces:
  "js_split CHR '' '' (replicate j CHR '' '' @ x) = replicate j [] @ js_split CHR '' '' x"
  by (induction j) auto

lemma js_join_empties:
  "ws \<noteq> [] \<Longrightarrow> js_join '' '' (replicate j [] @ ws) = replicate j CHR '' '' @ js_join '' '' ws"
proof (induction j)
  case 0
  then show ?case by simp
next
  case (Suc j)
  then obtain y ys where "replicate j [] @ ws = y # ys" by (cases "replicate j [] @ ws") auto
  with Suc show ?case by simp
qed

lemma lastWords_empties:
  "\<exists>j'. lastWords k (replicate j [] @ ws) = replicate j' [] @ lastWords k ws"
proof (cases "k \<le> length ws")
  case True
  then have "lastWords k (replicate j [] @ ws) = replicate 0 [] @ lastWords k ws"
    by (simp add: lastWords_def)
  then show ?thesis by blast
next
  case False
  then have "lastWords k (replicate j [] @ ws) = replicate (j - (j + length ws - k)) [] @ lastWords k ws"
    by (simp add: lastWords_def)
  then show ?thesis by blast
qed

lemma js_trim_spaces: "js_trim (replicate j CHR '' '' @ x) = js_trim x"
proof -
  have "dropWhile isWhiteSpace (replicate j CHR '' '' @ x) = dropWhile isWhiteSpace x"
    by (induction j) (simp_all add: space_isWhiteSpace)
  then show ?thesis by (simp add: js_trim_def)
qed

lemma lastWords_ne: "0 < k \<Longrightarrow> ws \<noteq> [] \<Longrightarrow> lastWords k ws \<noteq> []"
proof -
  assume "0 < k" "ws \<noteq> []"
  then have "length ws - k < length ws" by (cases ws) auto
  then show ?thesis by (simp add: lastWords_def)
qed

text \<open>The seed made from a buffer, trimmed with what follows, is that made from its trimmed text.\<close>

lemma trim_seed_observable:
  assumes "cleanBuf b" "0 < k"
  shows "js_trim (js_join '' '' (lastWords k (js_split CHR '' '' b)) @ x)
           = js_trim (js_join '' '' (lastWords k (js_split CHR '' '' (js_trim b))) @ x)"
proof -
  obtain j where j: "b = replicate j CHR '' '' @ js_trim b"
    using cleanBuf_trim [OF assms(1)] by blast
  let ?ws = "js_split CHR '' '' (js_trim b)"
  have "js_split CHR '' '' b = replicate j [] @ ?ws"
    using js_split_spaces [of j "js_trim b"] j by simp
  then obtain j' where "lastWords k (js_split CHR '' '' b) = replicate j' [] @ lastWords k ?ws"
    using lastWords_empties [of k j ?ws] by auto
  moreover have "lastWords k ?ws \<noteq> []" using assms(2) js_split_ne by (rule lastWords_ne)
  ultimately have "js_join '' '' (lastWords k (js_split CHR '' '' b))
      = replicate j' CHR '' '' @ js_join '' '' (lastWords k ?ws)"
    by (simp add: js_join_empties)
  then show ?thesis using js_trim_spaces [of j' "js_join '' '' (lastWords k ?ws) @ x"] by simp
qed

lemma chunkTrace_chain:
  assumes "\<forall>u \<in> set (sentencesOf (cleanText s)). unitOk u"
  shows "traceChain dp None (chunkTrace dp s)"
    and "\<forall>e \<in> set (chunkTrace dp s). cleanBuf (fst e)"
proof -
  have ne: "\<forall>u \<in> set (sentencesOf (cleanText s)). u \<noteq> []"
    using assms by (simp add: unitOk_def)
  show "traceChain dp None (chunkTrace dp s)"
    unfolding chunkTrace_def by (rule traceLoop_chain [OF ne]) simp_all
  show "\<forall>e \<in> set (chunkTrace dp s). cleanBuf (fst e)"
    unfolding chunkTrace_def by (rule traceLoop_clean [OF assms]) (simp_all add: cleanBuf_def)
qed

lemma chunkTrace_units: "concat (map snd (chunkTrace dp s)) = sentencesOf (cleanText s)"
  by (simp add: chunkTrace_def traceLoop_units)

lemma chunkText_empty_units:
  assumes "sentencesOf (cleanText s) = [[]]"
  shows "chunkText dp s = []"
proof -
  have "js_trim [] = []" by (simp add: js_trim_def)
  then show ?thesis using assms by (simp add: chunkText_def Let_def)
qed

lemma chunk_at:
  assumes "i < length (chunkText dp s)"
  shows "i < length (chunkTrace dp s)"
    and "chunkText dp s ! i = js_trim (fst (chunkTrace dp s ! i))"
    and "\<forall>u \<in> set (sentencesOf (cleanText s)). unitOk u"
proof -
  let ?tr = "chunkTrace dp s"
  have len: "length (chunkText dp s) \<le> length ?tr"
    by (subst chunkText_trace) simp
  then show i: "i < length ?tr" using assms by simp
  show "chunkText dp s ! i = js_trim (fst (?tr ! i))"
  proof (cases "length (js_trim (fst (last ?tr))) > 0")
    case True
    then have "chunkText dp s = map (js_trim \<circ> fst) ?tr" by (subst chunkText_trace) simp
    then show ?thesis using i by simp
  next
    case False
    then have eq: "chunkText dp s = map (js_trim \<circ> fst) (butlast ?tr)"
      by (subst chunkText_trace) simp
    then have "i < length (butlast ?tr)" using assms by simp
    then show ?thesis using eq by (simp add: nth_butlast)
  qed
  show "\<forall>u \<in> set (sentencesOf (cleanText s)). unitOk u"
    using sentences_units [of s] chunkText_empty_units [of s dp] assms by auto
qed

lemma concat_hd_tl: "us \<noteq> [] \<Longrightarrow> hd us @ concat (tl us) = concat us"
  by (cases us) simp_all

lemma overlapWords_last:
  "1 \<le> chunkOverlap dp div 5 \<Longrightarrow>
     overlapWords dp buf = lastWords (nat (chunkOverlap dp div 5)) (js_split CHR '' '' buf)"
  unfolding overlapWords_def js_slice_from_def lastWords_def Let_def
  by (auto simp: max_def nat_diff_distrib' intro: arg_cong [where f = "\<lambda>n. drop n _"])

lemma next_chunk:
  assumes "Suc i < length (chunkText dp s)"
  shows "snd (chunkTrace dp s ! Suc i) \<noteq> []"
    and "fst (chunkTrace dp s ! i) \<noteq> []"
    and "int (length (fst (chunkTrace dp s ! i) @ hd (snd (chunkTrace dp s ! Suc i))))
           > chunkSize dp"
    and "fst (chunkTrace dp s ! Suc i)
           = js_join '' '' (overlapWords dp (fst (chunkTrace dp s ! i))) @ '' ''
             @ concat (snd (chunkTrace dp s ! Suc i))"
    and "length (snd (chunkTrace dp s ! Suc i)) \<le> 1
         \<or> int (length (fst (chunkTrace dp s ! Suc i))) \<le> chunkSize dp"
    and "cleanBuf (fst (chunkTrace dp s ! i))"
proof -
  let ?tr = "chunkTrace dp s"
  note at = chunk_at [OF assms]
  obtain b us where e: "?tr ! Suc i = (b, us)" by (cases "?tr ! Suc i")
  have "entryOk dp (Some (fst (?tr ! i))) (?tr ! Suc i)"
    using traceChain_nth [OF chunkTrace_chain(1) [OF at(3)] at(1)] by simp
  then have ok: "us \<noteq> []" "fst (?tr ! i) \<noteq> []"
    "int (length (fst (?tr ! i) @ hd us)) > chunkSize dp"
    "b = seedBuffer dp (fst (?tr ! i)) (hd us) @ concat (tl us)"
    "length us \<le> 1 \<or> int (length b) \<le> chunkSize dp"
    unfolding e entryOk.simps by blast+
  show "snd (?tr ! Suc i) \<noteq> []" using ok(1) e by simp
  show "fst (?tr ! i) \<noteq> []" by (rule ok(2))
  show "int (length (fst (?tr ! i) @ hd (snd (?tr ! Suc i)))) > chunkSize dp"
    using ok(3) e by simp
  show "fst (?tr ! Suc i)
          = js_join '' '' (overlapWords dp (fst (?tr ! i))) @ '' '' @ concat (snd (?tr ! Suc i))"
    using ok(4) concat_hd_tl [OF ok(1)] e by (simp add: seedBuffer_def)
  show "length (snd (?tr ! Suc i)) \<le> 1 \<or> int (length (fst (?tr ! Suc i))) \<le> chunkSize dp"
    using ok(5) e by simp
  have "i < length ?tr" using at(1) by simp
  then show "cleanBuf (fst (?tr ! i))"
    using chunkTrace_chain(2) [OF at(3)] nth_mem by blast
qed

lemma next_chunk_observable:
  assumes "1 \<le> chunkOverlap dp div 5" and "Suc i < length (chunkText dp s)"
  shows "chunkText dp s ! Suc i
           = js_trim (js_join '' '' (lastWords (nat (chunkOverlap dp div 5))
                                      (js_split CHR '' '' (chunkText dp s ! i)))
                      @ '' '' @ concat (snd (chunkTrace dp s ! Suc i)))"
proof -
  let ?tr = "chunkTrace dp s"
  let ?k = "nat (chunkOverlap dp div 5)"
  note n = next_chunk [OF assms(2)]
  have i: "i < length (chunkText dp s)" using assms(2) by simp
  have k: "0 < ?k" using assms(1) by simp
  have "chunkText dp s ! Suc i = js_trim (fst (?tr ! Suc i))"
    by (rule chunk_at(2) [OF assms(2)])
  also have "fst (?tr ! Suc i)
      = js_join '' '' (lastWords ?k (js_split CHR '' '' (fst (?tr ! i))))
        @ ('' '' @ concat (snd (?tr ! Suc i)))"
    using n(4) overlapWords_last [OF assms(1)] by simp
  also have "js_trim \<dots>
      = js_trim (js_join '' '' (lastWords ?k (js_split CHR '' '' (js_trim (fst (?tr ! i)))))
                 @ ('' '' @ concat (snd (?tr ! Suc i))))"
    by (rule trim_seed_observable [OF n(6) k])
  also have "js_trim (fst (?tr ! i)) = chunkText dp s ! i"
    by (rule chunk_at(2) [OF i, symmetric])
  finally show ?thesis by simp
qed

lemma length_js_trim: "length (js_trim s) \<le> length s"
proof -
  have "length (js_trim s) \<le> length (dropWhile isWhiteSpace s)"
    unfolding js_trim_def
    using length_dropWhile_le [of isWhiteSpace "rev (dropWhile isWhiteSpace s)"] by simp
  also have "\<dots> \<le> length s" by (rule length_dropWhile_le)
  finally show ?thesis .
qed

text \<open>The length of a chunk, from the shape of its buffer.\<close>

lemma first_chunk_bound:
  assumes "0 < length (chunkText dp s)"
  shows "int (length (chunkText dp s ! 0))
           \<le> max (chunkSize dp) (int (length (hd (sentencesOf (cleanText s)))))"
proof -
  let ?tr = "chunkTrace dp s"
  note at = chunk_at [OF assms]
  obtain b us where e: "?tr ! 0 = (b, us)" by (cases "?tr ! 0")
  have "entryOk dp None (?tr ! 0)"
    using traceChain_nth [OF chunkTrace_chain(1) [OF at(3)] at(1)] by simp
  then have ok: "b = concat us" "length us \<le> 1 \<or> int (length b) \<le> chunkSize dp"
    unfolding e entryOk.simps by blast+
  have c: "int (length (chunkText dp s ! 0)) \<le> int (length b)"
    using at(2) e length_js_trim [of b] by simp
  from ok(2) show ?thesis
  proof
    assume "int (length b) \<le> chunkSize dp"
    with c show ?thesis by simp
  next
    assume l: "length us \<le> 1"
    show ?thesis
    proof (cases us)
      case Nil
      with ok(1) c show ?thesis by simp
    next
      case (Cons u vs)
      with l have us: "us = [u]" by simp
      obtain rest where tr: "?tr = (b, us) # rest"
        using e at(1) by (cases ?tr) auto
      have "sentencesOf (cleanText s) = concat (map snd ?tr)"
        by (rule chunkTrace_units [symmetric])
      then have "hd (sentencesOf (cleanText s)) = u" using tr us by simp
      with ok(1) us c show ?thesis by simp
    qed
  qed
qed

lemma later_chunk_bound:
  assumes "Suc i < length (chunkText dp s)"
  shows "int (length (chunkText dp s ! Suc i))
           \<le> max (chunkSize dp)
                (int (length (js_join '' '' (overlapWords dp (fst (chunkTrace dp s ! i))))) + 1
                 + int (length (hd (snd (chunkTrace dp s ! Suc i)))))"
proof -
  let ?tr = "chunkTrace dp s"
  note n = next_chunk [OF assms]
  have c: "int (length (chunkText dp s ! Suc i)) \<le> int (length (fst (?tr ! Suc i)))"
    using chunk_at(2) [OF assms] length_js_trim [of "fst (?tr ! Suc i)"] by simp
  from n(5) show ?thesis
  proof
    assume "int (length (fst (?tr ! Suc i))) \<le> chunkSize dp"
    with c show ?thesis by simp
  next
    assume "length (snd (?tr ! Suc i)) \<le> 1"
    with n(1) obtain u where u: "snd (?tr ! Suc i) = [u]"
      by (cases "snd (?tr ! Suc i)") auto
    have "int (length (fst (?tr ! Suc i)))
            = int (length (js_join '' '' (overlapWords dp (fst (?tr ! i))))) + 1 + int (length u)"
      by (subst n(4)) (simp add: u)
    with c u show ?thesis by simp
  qed
qed

lemma later_chunk_bound_observable:
  assumes "1 \<le> chunkOverlap dp div 5" and "Suc i < length (chunkText dp s)"
  shows "int (length (chunkText dp s ! Suc i))
           \<le> max (chunkSize dp)
                (int (length (js_join '' '' (lastWords (nat (chunkOverlap dp div 5))
                                             (js_split CHR '' '' (chunkText dp s ! i))))) + 1
                 + int (length (hd (snd (chunkTrace dp s ! Suc i)))))"
proof -
  let ?tr = "chunkTrace dp s"
  let ?ov = "js_join '' '' (lastWords (nat (chunkOverlap dp div 5))
                             (js_split CHR '' '' (chunkText dp s ! i)))"
  note n = next_chunk [OF assms(2)]
  have c: "int (length (chunkText dp s ! Suc i)) \<le> int (length (fst (?tr ! Suc i)))"
    using chunk_at(2) [OF assms(2)] length_js_trim [of "fst (?tr ! Suc i)"] by simp
  from n(5) show ?thesis
  proof
    assume "int (length (fst (?tr ! Suc i))) \<le> chunkSize dp"
    with c show ?thesis by simp
  next
    assume "length (snd (?tr ! Suc i)) \<le> 1"
    with n(1) obtain u where u: "snd (?tr ! Suc i) = [u]"
      by (cases "snd (?tr ! Suc i)") auto
    have "chunkText dp s ! Suc i = js_trim (?ov @ '' '' @ u)"
      using next_chunk_observable [OF assms] u by simp
    then have "int (length (chunkText dp s ! Suc i)) \<le> int (length (?ov @ '' '' @ u))"
      using length_js_trim [of "?ov @ '' '' @ u"] by simp
    with u show ?thesis by simp
  qed
qed

text \<open>
  \<open>processTextFile\<close> numbers the chunks of a file by their position and gives each the
  number of chunks of the file.
\<close>

lemma enumerate_map_fst: "map fst (enumerate n xs) = [n..<n + length xs]"
  by (simp add: enumerate_eq_zip)

lemma processTextFile_indices:
  assumes "processTextFile dp fs p = Inr docs"
  shows "map (\<lambda>d. chunkIndex (metadata d)) docs = map Some [0..<length docs]
         \<and> (\<forall>d \<in> set docs. totalChunks (metadata d) = Some (length docs))"
proof -
  obtain c where c: "readFileSync fs p = Inr c"
    using assms by (auto simp: processTextFile_def split: sum.splits)
  let ?cs = "chunkText dp c"
  have docs: "docs = map (\<lambda>(index, chunk).
                          \<lparr> text = chunk,
                            metadata = \<lparr> source = basename fs p, type = ''text'',
                                         chunkIndex = Some index,
                                         totalChunks = Some (length ?cs) \<rparr> \<rparr>)
                       (enumerate 0 ?cs)"
    using assms c by (simp add: processTextFile_def Let_def)
  have len: "length docs = length ?cs" by (simp add: docs)
  have "map (\<lambda>d. chunkIndex (metadata d)) docs = map (Some \<circ> fst) (enumerate 0 ?cs)"
    by (simp add: docs case_prod_unfold comp_def)
  also have "\<dots> = map Some [0..<length ?cs]"
    using enumerate_map_fst [of 0 ?cs] by (simp flip: map_map)
  finally have "map (\<lambda>d. chunkIndex (metadata d)) docs = map Some [0..<length docs]"
    by (simp add: len)
  moreover have "\<forall>d \<in> set docs. totalChunks (metadata d) = Some (length docs)"
    unfolding len by (auto simp: docs)
  ultimately show ?thesis by blast
qed

text \<open>
  \<open>processMarkdown\<close> numbers a chunk \<open>index * chunks.length + chunkIdx\<close> with the
  number of chunks of the chunk's own section: two sections of which the first gives two
  chunks and the second one give the numbers 0, 1 and 1, whatever the sizes are.
\<close>

lemma markdown_numbers_two_sections:
  assumes "readFileSync fs p = Inr c" and "splitByMarkdownHeaders c = [s0, s1]"
    and "int (length s0) > chunkSize dp" and "length (chunkText dp s0) = 2"
    and "int (length s1) \<le> chunkSize dp"
  shows "chunkNumbers (processMarkdown dp fs p)
           = [(Some 0, Some 4), (Some 1, Some 4), (Some 1, Some 2)]"
proof -
  obtain a b where ab: "chunkText dp s0 = [a, b]"
    using assms(4) by (cases "chunkText dp s0" rule: list.exhaust)
      (auto simp: length_Suc_conv)
  show ?thesis
    using assms(1,2,3,5) ab
    by (simp add: processMarkdown_def chunkNumbers_def Let_def enumerate_eq_zip upt_rec)
qed

text \<open>
  C2 (where the code breaks it): with \<open>chunkSize = 40\<close> and \<open>chunkOverlap = 10\<close>, a
  markdown file of two sections, the first of which gives three chunks and the second
  one, gets the chunk indices 0, 1, 2, 1 and the totals 6, 6, 6, 2 for its four chunks.
\<close>

theorem markdown_indices_at_failing_input:
  "chunkNumbers (processMarkdown dp40 mdFs ''docs/about.md'')
     = [(Some 0, Some 6), (Some 1, Some 6), (Some 2, Some 6), (Some 1, Some 2)]"
  by code_simp

text \<open>
  With \<open>chunkOverlap = 0\<close> the argument of \<open>slice\<close> is \<open>-0\<close>, and the whole closed
  buffer is carried over into the next chunk.
\<close>

lemma zero_overlap_carries_whole_chunk:
  "chunkOverlap dp0 div 5 = 0
   \<and> chunkText dp0 overlapExample
       = [''Aaaa bbbb.'', ''Aaaa bbbb.  Cc.'', ''Aaaa bbbb.  Cc.  Dddd eeee.'']"
  by code_simp

text \<open>
  The second chunk of this run is closed with the words \<open>Aaaa\<close>, \<open>bbbb.\<close>, the empty
  word and \<open>Cc.\<close>; the third chunk begins neither with its two trailing words joined by
  a space nor with its two trailing non-empty words.
\<close>

theorem overlap_prefix_counterexample:
  "chunkText dp10 overlapExample = [''Aaaa bbbb.'', ''Aaaa bbbb.  Cc.'', ''Cc.  Dddd eeee.'']
   \<and> chunkOverlap dp10 div 5 = 2
   \<and> lastWords 2 (js_split CHR '' '' ''Aaaa bbbb.  Cc.'') = [[], ''Cc.'']
   \<and> \<not> prefix (js_join '' '' [[], ''Cc.'']) ''Cc.  Dddd eeee.''
   \<and> \<not> prefix ''bbbb. Cc.'' ''Cc.  Dddd eeee.''"
  by code_simp

text \<open>
  C7 (as the code has it): when \<open>floor(chunkOverlap / 5)\<close> is at least one, the chunk that
  follows a closed chunk is the trimmed text of: the trailing \<open>floor(chunkOverlap / 5)\<close>
  words of the closed chunk, split at single spaces so that an empty word between two
  adjacent spaces counts, joined by single spaces; then a space; then the units that the new
  buffer took, of which the first is the unit that the closed buffer, which was not empty,
  could not take within \<open>chunkSize\<close>. The units of all buffers together are the sentence
  units of the text in order.
\<close>

theorem overlap_seeds_next_chunk:
  assumes "1 \<le> chunkOverlap dp div 5" and "Suc i < length (chunkText dp s)"
  shows "chunkText dp s ! Suc i
           = js_trim (js_join '' '' (lastWords (nat (chunkOverlap dp div 5))
                                      (js_split CHR '' '' (chunkText dp s ! i)))
                      @ '' '' @ concat (snd (chunkTrace dp s ! Suc i)))
         \<and> snd (chunkTrace dp s ! Suc i) \<noteq> []
         \<and> chunkText dp s ! i = js_trim (fst (chunkTrace dp s ! i))
         \<and> fst (chunkTrace dp s ! i) \<noteq> []
         \<and> int (length (fst (chunkTrace dp s ! i) @ hd (snd (chunkTrace dp s ! Suc i))))
              > chunkSize dp
         \<and> concat (map snd (chunkTrace dp s)) = sentencesOf (cleanText s)"
proof -
  have i: "i < length (chunkText dp s)" using assms(2) by simp
  show ?thesis
    using next_chunk_observable [OF assms] next_chunk(1,2,3) [OF assms(2)]
      chunk_at(2) [OF i] chunkTrace_units [of dp s]
    by blast
qed

theorem overlap_seeds_next_chunk_witness:
  "1 \<le> chunkOverlap dp10 div 5 \<and> Suc 1 < length (chunkText dp10 overlapExample)
   \<and> chunkText dp10 overlapExample ! 1 = ''Aaaa bbbb.  Cc.''
   \<and> snd (chunkTrace dp10 overlapExample ! Suc 1) = ['' Dddd eeee.'']
   \<and> chunkText dp10 overlapExample ! Suc 1 = ''Cc.  Dddd eeee.''
   \<and> chunkText dp10 overlapExample ! Suc 1
       = js_trim (js_join '' '' (lastWords (nat (chunkOverlap dp10 div 5))
                                  (js_split CHR '' '' (chunkText dp10 overlapExample ! 1)))
                  @ '' '' @ concat (snd (chunkTrace dp10 overlapExample ! Suc 1)))"
proof -
  have a: "1 \<le> chunkOverlap dp10 div 5" by code_simp
  have b: "Suc 1 < length (chunkText dp10 overlapExample)" by code_simp
  have c: "chunkText dp10 overlapExample ! 1 = ''Aaaa bbbb.  Cc.''" by code_simp
  have d: "snd (chunkTrace dp10 overlapExample ! Suc 1) = ['' Dddd eeee.'']" by code_simp
  have e: "chunkText dp10 overlapExample ! Suc 1 = ''Cc.  Dddd eeee.''" by code_simp
  from overlap_seeds_next_chunk [OF a b] a b c d e show ?thesis by blast
qed

text \<open>
  A unit longer than \<open>chunkSize\<close> makes a chunk that is not the last one exceed
  \<open>chunkSize\<close> plus the length of the overlap words, as the second of three chunks or as
  the first of two.
\<close>

theorem long_unit_counterexample:
  "chunkText dp10 longUnitExample
     = [''Aaaa bbbb.'', ''Aaaa bbbb.  Cccccccccccccccccccccccccccccc.'',
        ''Cccccccccccccccccccccccccccccc.  Dd.'']
   \<and> js_join '' '' (overlapWords dp10 ''Aaaa bbbb.'') = ''Aaaa bbbb.''
   \<and> int (length ''Aaaa bbbb.  Cccccccccccccccccccccccccccccc.'')
        > chunkSize dp10 + int (length ''Aaaa bbbb.'')
   \<and> chunkText dp10 ''Aaaaaaaaaaaaaaaaaaaa. Bb.''
       = [''Aaaaaaaaaaaaaaaaaaaa.'', ''Aaaaaaaaaaaaaaaaaaaa.  Bb.'']
   \<and> int (length ''Aaaaaaaaaaaaaaaaaaaa.'') > chunkSize dp10"
  by code_simp

text \<open>
  C5 (as the code has it): every chunk, the last one included, is the trimmed text of its
  buffer and has at most \<open>max(chunkSize, overlap + 1 + unit)\<close> characters, where
  \<open>unit\<close> is the length of the first sentence unit that the chunk holds and \<open>overlap\<close>
  is the length of the overlap words injected at its start: the words that \<open>slice\<close> takes
  from the buffer closed before it, joined by spaces. For
  \<open>floor(chunkOverlap / 5) \<ge> 1\<close> the bound also holds with the trailing words of the
  previous chunk, joined by spaces, as the overlap. The first chunk has no overlap and at most
  \<open>max(chunkSize, unit)\<close> characters. A unit is never split, so the bound grows with
  the unit.
\<close>

theorem chunk_length_bound:
  assumes "i < length (chunkText dp s)"
  shows "chunkText dp s ! i = js_trim (fst (chunkTrace dp s ! i))
         \<and> concat (map snd (chunkTrace dp s)) = sentencesOf (cleanText s)
         \<and> (i = 0 \<longrightarrow>
               int (length (chunkText dp s ! i))
                 \<le> max (chunkSize dp) (int (length (hd (sentencesOf (cleanText s))))))
         \<and> (0 < i \<longrightarrow>
               snd (chunkTrace dp s ! i) \<noteq> []
               \<and> int (length (chunkText dp s ! i))
                   \<le> max (chunkSize dp)
                        (int (length (js_join '' ''
                                        (overlapWords dp (fst (chunkTrace dp s ! (i - 1)))))) + 1
                         + int (length (hd (snd (chunkTrace dp s ! i)))))
               \<and> (1 \<le> chunkOverlap dp div 5 \<longrightarrow>
                     int (length (chunkText dp s ! i))
                       \<le> max (chunkSize dp)
                            (int (length (js_join '' ''
                                    (lastWords (nat (chunkOverlap dp div 5))
                                       (js_split CHR '' '' (chunkText dp s ! (i - 1)))))) + 1
                             + int (length (hd (snd (chunkTrace dp s ! i)))))))"
proof (cases i)
  case 0
  then show ?thesis
    using first_chunk_bound [of dp s] assms chunk_at(2) [OF assms] chunkTrace_units [of dp s]
    by simp
next
  case (Suc j)
  then have j: "Suc j < length (chunkText dp s)" using assms by simp
  show ?thesis
    using next_chunk(1) [OF j] later_chunk_bound [OF j] later_chunk_bound_observable [OF _ j]
      chunk_at(2) [OF assms] chunkTrace_units [of dp s] Suc
    by simp
qed

theorem chunk_length_bound_witness:
  "1 < length (chunkText dp10 longUnitExample)
   \<and> chunkText dp10 longUnitExample ! 1 = ''Aaaa bbbb.  Cccccccccccccccccccccccccccccc.''
   \<and> fst (chunkTrace dp10 longUnitExample ! (1 - 1)) = ''Aaaa bbbb.''
   \<and> hd (snd (chunkTrace dp10 longUnitExample ! 1)) = '' Cccccccccccccccccccccccccccccc.''
   \<and> int (length (chunkText dp10 longUnitExample ! 1))
        \<le> max (chunkSize dp10)
             (int (length (js_join '' ''
                             (overlapWords dp10 (fst (chunkTrace dp10 longUnitExample ! (1 - 1))))))
              + 1 + int (length (hd (snd (chunkTrace dp10 longUnitExample ! 1)))))"
proof -
  have a: "1 < length (chunkText dp10 longUnitExample)" by code_simp
  have b: "chunkText dp10 longUnitExample ! 1 = ''Aaaa bbbb.  Cccccccccccccccccccccccccccccc.''"
    by code_simp
  have c: "fst (chunkTrace dp10 longUnitExample ! (1 - 1)) = ''Aaaa bbbb.''" by code_simp
  have d: "hd (snd (chunkTrace dp10 longUnitExample ! 1)) = '' Cccccccccccccccccccccccccccccc.''"
    by code_simp
  have "(0::nat) < 1" by simp
  with chunk_length_bound [OF a] a b c d show ?thesis by blast
qed

end
